theory Spec2Isabelle
  imports Complex_Main
begin

section \<open>Element types\<close>

text \<open>
  The kernels of \<^verbatim>\<open>BatchLinearAlgebraKernel.cpp\<close> are templates over \<^verbatim>\<open>scalar_t\<close>,
  instantiated by \<^verbatim>\<open>AT_DISPATCH_FLOATING_AND_COMPLEX_TYPES\<close> at the real types
  (float, double) and at their complex counterparts. A value of either kind is a
  \<open>scalar\<close>; the floating-point formats are idealised by \<open>real\<close> and \<open>complex\<close>.
\<close>

datatype scalar = Real_val real | Complex_val complex

text \<open>
  Modelled from the spec: \<^verbatim>\<open>conj_impl\<close> of \<^verbatim>\<open>ATen/native/cpu/zmath.h\<close> is not among
  the sources. The spec (4.4) says: element-wise conjugation, a no-op for real element
  types.
\<close>

fun conj_impl :: "scalar \<Rightarrow> scalar" where
  "conj_impl (Real_val r) = Real_val r"
| "conj_impl (Complex_val z) = Complex_val (cnj z)"

text \<open>
  Modelled from the spec: \<^verbatim>\<open>real_impl\<close> of \<^verbatim>\<open>ATen/native/cpu/zmath.h\<close> is not among
  the sources. The spec (4.2) says: the real component of the hint, extracted
  explicitly for complex element types.
\<close>

fun real_impl :: "scalar \<Rightarrow> real" where
  "real_impl (Real_val r) = r"
| "real_impl (Complex_val z) = Re z"

section \<open>Triangle symmetrization: \<^verbatim>\<open>apply_reflect_conj_tri_single\<close>\<close>

text \<open>
  A pointer \<^verbatim>\<open>scalar_t* self\<close> is an offset \<open>self\<close> into the buffer \<open>buf\<close> that holds
  the tensor's data, so \<^verbatim>\<open>self[k]\<close> is \<open>buf ! (self + k)\<close>. Indices are natural
  numbers: the \<^verbatim>\<open>int64_t\<close> arithmetic of the source is assumed not to overflow. An
  access past the end of the buffer is undefined behaviour in the source; the theorems
  below assume that the buffer holds the whole matrix.

  One assignment of the loop body,
  \<^verbatim>\<open>self[i * stride + j] = conj_impl(self[j * stride + i])\<close>:
\<close>

definition reflect_elem :: "nat \<Rightarrow> nat \<Rightarrow> nat \<Rightarrow> nat \<Rightarrow> scalar list \<Rightarrow> scalar list" where
  "reflect_elem self stride i j buf =
     buf[self + (i * stride + j) := conj_impl (buf ! (self + (j * stride + i)))]"

text \<open>The lambda \<^verbatim>\<open>loop\<close> chosen when \<^verbatim>\<open>upper\<close> holds: \<open>i\<close> in \<open>start..<stop\<close>, \<open>j\<close> in \<open>i+1..<n\<close>.\<close>

definition loop_upper :: "nat \<Rightarrow> nat \<Rightarrow> nat \<Rightarrow> nat \<Rightarrow> nat \<Rightarrow> scalar list \<Rightarrow> scalar list" where
  "loop_upper self n stride start stop buf =
     fold (\<lambda>i. fold (\<lambda>j. reflect_elem self stride i j) [i + 1..<n]) [start..<stop] buf"

text \<open>The lambda \<^verbatim>\<open>loop\<close> chosen otherwise: \<open>i\<close> in \<open>start..<stop\<close>, \<open>j\<close> in \<open>0..<i\<close>.\<close>

definition loop_lower :: "nat \<Rightarrow> nat \<Rightarrow> nat \<Rightarrow> nat \<Rightarrow> nat \<Rightarrow> scalar list \<Rightarrow> scalar list" where
  "loop_lower self n stride start stop buf =
     fold (\<lambda>i. fold (\<lambda>j. reflect_elem self stride i j) [0..<i]) [start..<stop] buf"

definition loop :: "bool \<Rightarrow> nat \<Rightarrow> nat \<Rightarrow> nat \<Rightarrow> nat \<Rightarrow> nat \<Rightarrow> scalar list \<Rightarrow> scalar list" where
  "loop upper self n stride start stop buf =
     (if upper then loop_upper self n stride start stop buf
      else loop_lower self n stride start stop buf)"

text \<open>
  Modelled from the spec: \<^verbatim>\<open>at::parallel_for\<close> (\<^verbatim>\<open>ATen/Parallel.h\<close>) is not among the
  sources. The spec (4.4) says: above the threshold, partition rows across workers.
  A schedule is the list of chunks \<open>(start, stop)\<close> of the outer loop index (the spec's
  rows) handed to the workers, in the order in which their effects reach the buffer;
  \<open>covers\<close> says that the chunks together are the indices \<open>begin..<stop\<close>.
\<close>

type_synonym schedule = "(nat \<times> nat) list"

definition covers :: "nat \<Rightarrow> nat \<Rightarrow> schedule \<Rightarrow> bool" where
  "covers begin stop chunks \<longleftrightarrow>
     set (concat (map (\<lambda>(s, e). [s..<e]) chunks)) = set [begin..<stop]"

definition parallel_for :: "schedule \<Rightarrow> (nat \<Rightarrow> nat \<Rightarrow> 'b \<Rightarrow> 'b) \<Rightarrow> 'b \<Rightarrow> 'b" where
  "parallel_for chunks f buf = fold (\<lambda>(s, e). f s e) chunks buf"

text \<open>
  \<^verbatim>\<open>apply_reflect_conj_tri_single(self, n, stride, upper)\<close>; \<open>chunks\<close> is the schedule
  that \<^verbatim>\<open>at::parallel_for(0, n, 0, loop)\<close> picks when \<open>256 \<le> n\<close>.
\<close>

definition apply_reflect_conj_tri_single ::
  "schedule \<Rightarrow> scalar list \<Rightarrow> nat \<Rightarrow> nat \<Rightarrow> nat \<Rightarrow> bool \<Rightarrow> scalar list" where
  "apply_reflect_conj_tri_single chunks buf self n stride upper =
     (if n < 256 then loop upper self n stride 0 n buf
      else parallel_for chunks (loop upper self n stride) buf)"

text \<open>
  \<open>elem buf self stride i j\<close> is \<^verbatim>\<open>self[i * stride + j]\<close>, the element the loops of the
  source address with their indices \<open>i\<close> and \<open>j\<close>; \<open>in_tri upper n i j\<close> says that the
  loop chosen by \<open>upper\<close> assigns to that element when run over all \<open>i\<close> in \<open>0..<n\<close>.
\<close>

definition elem :: "scalar list \<Rightarrow> nat \<Rightarrow> nat \<Rightarrow> nat \<Rightarrow> nat \<Rightarrow> scalar" where
  "elem buf self stride i j = buf ! (self + (i * stride + j))"

definition in_tri :: "bool \<Rightarrow> nat \<Rightarrow> nat \<Rightarrow> nat \<Rightarrow> bool" where
  "in_tri upper n i j \<longleftrightarrow> (if upper then i < j \<and> j < n else j < i \<and> i < n)"

text \<open>
  The matrices are stored column-major, the leading dimension \<open>stride\<close> being the distance
  between consecutive columns (spec 3 and glossary; the kernels hand the same buffers to
  LAPACK). \<open>entry buf self stride r c\<close> is the element in row \<open>r\<close> and column \<open>c\<close> of the
  matrix at \<open>self\<close>, that is \<^verbatim>\<open>self[c * stride + r]\<close>. So the loop index \<open>i\<close> of the source
  is a column and \<open>j\<close> a row: \<open>elem buf self stride i j = entry buf self stride j i\<close>.
\<close>

definition entry :: "scalar list \<Rightarrow> nat \<Rightarrow> nat \<Rightarrow> nat \<Rightarrow> nat \<Rightarrow> scalar" where
  "entry buf self stride r c = buf ! (self + (c * stride + r))"

text \<open>
  The buffer holds the matrix at \<open>self\<close>: all elements up to the last one,
  \<^verbatim>\<open>self[(n - 1) * stride + (n - 1)]\<close>, are inside it.
\<close>

definition holds_matrix :: "'a list \<Rightarrow> nat \<Rightarrow> nat \<Rightarrow> nat \<Rightarrow> bool" where
  "holds_matrix buf self n stride \<longleftrightarrow> (0 < n \<longrightarrow> self + ((n - 1) * stride + n) \<le> length buf)"

text \<open>
  Proof devices: the index pairs \<open>(i, j)\<close> in the order in which a loop run visits them,
  and the run of the loop body over a list of index pairs.
\<close>

definition tri_pairs :: "bool \<Rightarrow> nat \<Rightarrow> nat \<Rightarrow> nat \<Rightarrow> (nat \<times> nat) list" where
  "tri_pairs upper n start stop =
     concat (map (\<lambda>i. map (Pair i) (if upper then [i + 1..<n] else [0..<i])) [start..<stop])"

definition chunk_pairs :: "bool \<Rightarrow> nat \<Rightarrow> schedule \<Rightarrow> (nat \<times> nat) list" where
  "chunk_pairs upper n chunks = concat (map (\<lambda>(s, e). tri_pairs upper n s e) chunks)"

definition reflect_pairs :: "nat \<Rightarrow> nat \<Rightarrow> (nat \<times> nat) list \<Rightarrow> scalar list \<Rightarrow> scalar list" where
  "reflect_pairs self stride ps buf = fold (\<lambda>(i, j). reflect_elem self stride i j) ps buf"

definition valid_pairs :: "bool \<Rightarrow> nat \<Rightarrow> (nat \<times> nat) list \<Rightarrow> bool" where
  "valid_pairs upper n ps \<longleftrightarrow> (\<forall>(i, j) \<in> set ps. in_tri upper n i j)"

section \<open>Tensor shapes\<close>

text \<open>
  A tensor's shape is its list of sizes, batch dimensions first, then the rows and the
  columns of one matrix. \<open>size_neg sizes k\<close> is \<^verbatim>\<open>size(-k)\<close>; the kernels are only
  reached with tensors of at least two dimensions.

  Modelled from the spec: \<^verbatim>\<open>batchCount\<close> and \<^verbatim>\<open>matrixStride\<close> of
  \<^verbatim>\<open>ATen/native/LinearAlgebraUtils.h\<close> and \<^verbatim>\<open>Tensor::numel\<close> are not among the sources.
  The spec (4.1) says: the batch size is the product of all leading (batch) dimensions,
  the matrix stride is the distance between the first elements of consecutive matrices
  of the packed buffer.
\<close>

type_synonym shape = "nat list"

definition numel :: "shape \<Rightarrow> nat" where
  "numel sizes = prod_list sizes"

definition size_neg :: "shape \<Rightarrow> nat \<Rightarrow> nat" where
  "size_neg sizes k = sizes ! (length sizes - k)"

definition batchCount :: "shape \<Rightarrow> nat" where
  "batchCount sizes = prod_list (take (length sizes - 2) sizes)"

definition matrixStride :: "shape \<Rightarrow> nat" where
  "matrixStride sizes = size_neg sizes 1 * size_neg sizes 2"

section \<open>The LAPACK boundary\<close>

text \<open>
  \<open>use_lapack\<close>: the build defines \<^verbatim>\<open>USE_LAPACK\<close>. \<open>debug_asserts\<close>: the build keeps
  \<^verbatim>\<open>TORCH_INTERNAL_ASSERT_DEBUG_ONLY\<close> (the macro is not among the sources; it checks
  its condition in debug builds and is compiled out otherwise).
\<close>

record build =
  use_lapack :: bool
  debug_asserts :: bool

datatype error = Lapack_not_found | Internal_assert

text \<open>
  Where a LAPACK call writes its status: the local variable \<^verbatim>\<open>info\<close>, or slot \<open>k\<close> of
  the status vector \<^verbatim>\<open>infos\<close>.
\<close>

datatype info_ptr = Info_local | Info_slot nat

text \<open>
  What a kernel does to the outside, in order: \<open>Query p\<close> is the LAPACK routine called
  with the size-query flag (\<^verbatim>\<open>lwork = -1\<close>) and status pointer \<open>p\<close>; \<open>Factor i ws p\<close> is
  the routine called on matrix \<open>i\<close> of the batch (pointers advanced by \<open>i\<close> strides) with
  the workspace sizes \<open>ws\<close> and status pointer \<open>p\<close>; \<open>Reflect i\<close> is the symmetrization
  pass run on matrix \<open>i\<close>.
\<close>

datatype event = Query info_ptr | Factor nat "int list" info_ptr | Reflect nat

text \<open>
  The routines themselves (\<^verbatim>\<open>lapackEig\<close>, \<^verbatim>\<open>lapackSyevd\<close>, \<^verbatim>\<open>lapackGeqrf\<close>,
  \<^verbatim>\<open>lapackOrgqr\<close>, \<^verbatim>\<open>lapackTriangularSolve\<close>, \<^verbatim>\<open>lapackCholeskyInverse\<close>) are external.
  One run of a kernel sees: the status and the size hints of the query call, the status
  of the call on matrix \<open>i\<close>, and the effect of each call on the numeric buffers \<open>'m\<close>.
  All theorems hold for every such behaviour.
\<close>

record 'm lapack =
  query_info :: int
  query_work :: scalar
  query_rwork :: real
  query_iwork :: int
  status :: "nat \<Rightarrow> int"
  effect :: "event \<Rightarrow> 'm \<Rightarrow> 'm"

text \<open>
  The state a kernel works on: the numeric buffers, the status vector \<^verbatim>\<open>infos\<close> and
  the log of the calls made so far. A write to the status vector past its end is undefined
  behaviour in the source; the theorems assume a vector that is long enough.
\<close>

record 'm kstate =
  mem :: 'm
  infos :: "int list"
  trace :: "event list"

datatype 'm outcome = Returned "'m kstate" | Raised error "'m kstate"

fun final :: "'m outcome \<Rightarrow> 'm kstate" where
  "final (Returned st) = st"
| "final (Raised e st) = st"

fun raised :: "'m outcome \<Rightarrow> error option" where
  "raised (Returned st) = None"
| "raised (Raised e st) = Some e"

fun info_dest :: "event \<Rightarrow> info_ptr" where
  "info_dest (Query p) = p"
| "info_dest (Factor i ws p) = p"
| "info_dest (Reflect i) = Info_local"

definition init :: "'m \<Rightarrow> int list \<Rightarrow> 'm kstate" where
  "init m xs = \<lparr>mem = m, infos = xs, trace = []\<rparr>"

text \<open>One call of a LAPACK routine that reports the status \<open>info\<close>.\<close>

definition lapack_call :: "'m lapack \<Rightarrow> event \<Rightarrow> int \<Rightarrow> 'm kstate \<Rightarrow> 'm kstate" where
  "lapack_call L ev info st =
     \<lparr>mem = effect L ev (mem st),
      infos = (case info_dest ev of Info_local \<Rightarrow> infos st | Info_slot k \<Rightarrow> (infos st)[k := info]),
      trace = trace st @ [ev]\<rparr>"

text \<open>
  Conversions to \<^verbatim>\<open>int\<close>. A floating-point value is truncated toward zero (the source's
  \<^verbatim>\<open>static_cast<int>\<close> and the implicit conversion at \<^verbatim>\<open>std::max<int>\<close>); the
  conversion is undefined in the source when the truncated value is outside the range of
  \<^verbatim>\<open>int\<close>. An \<^verbatim>\<open>int64_t\<close> is narrowed to 32 bits.
\<close>

definition to_int :: "real \<Rightarrow> int" where
  "to_int x = (if 0 \<le> x then \<lfloor>x\<rfloor> else \<lceil>x\<rceil>)"

definition narrow_int :: "int \<Rightarrow> int" where
  "narrow_int k = (k + 2 ^ 31) mod 2 ^ 32 - 2 ^ 31"

section \<open>The kernels\<close>

subsection \<open>\<^verbatim>\<open>apply_cholesky_inverse\<close>\<close>

text \<open>
  The numeric buffer is the data of \<^verbatim>\<open>input\<close>. Each iteration calls
  \<^verbatim>\<open>lapackCholeskyInverse\<close> on matrix \<open>i\<close> with status pointer \<^verbatim>\<open>&infos_data[i]\<close>, then
  runs the symmetrization pass on the same matrix; nothing reads the status.
  \<open>chunks i\<close> is the schedule of the pass on matrix \<open>i\<close>.
\<close>

definition reflect_call :: "schedule \<Rightarrow> nat \<Rightarrow> nat \<Rightarrow> nat \<Rightarrow> nat \<Rightarrow> bool
    \<Rightarrow> scalar list kstate \<Rightarrow> scalar list kstate" where
  "reflect_call chunks i self n stride upper st =
     st\<lparr>mem := apply_reflect_conj_tri_single chunks (mem st) self n stride upper,
        trace := trace st @ [Reflect i]\<rparr>"

definition cholesky_step :: "scalar list lapack \<Rightarrow> (nat \<Rightarrow> schedule) \<Rightarrow> nat \<Rightarrow> nat \<Rightarrow> nat \<Rightarrow> bool
    \<Rightarrow> nat \<Rightarrow> scalar list kstate \<Rightarrow> scalar list kstate" where
  "cholesky_step L chunks input_matrix_stride n lda upper i st =
     reflect_call (chunks i) i (i * input_matrix_stride) n lda upper
       (lapack_call L (Factor i [] (Info_slot i)) (status L i) st)"

definition apply_cholesky_inverse :: "build \<Rightarrow> scalar list lapack \<Rightarrow> (nat \<Rightarrow> schedule) \<Rightarrow> shape
    \<Rightarrow> bool \<Rightarrow> scalar list \<Rightarrow> int list \<Rightarrow> scalar list outcome" where
  "apply_cholesky_inverse cfg L chunks input upper input_data infos_data =
     (if \<not> use_lapack cfg then Raised Lapack_not_found (init input_data infos_data)
      else
        let input_matrix_stride = matrixStride input;
            batch_size = batchCount input;
            n = size_neg input 2;
            lda = max 1 n
        in Returned (fold (cholesky_step L chunks input_matrix_stride n lda upper)
                       [0..<batch_size] (init input_data infos_data)))"

subsection \<open>\<^verbatim>\<open>apply_linalg_eig\<close>\<close>

text \<open>
  The size query runs before the loop, whatever the batch size, with status pointer
  \<^verbatim>\<open>&infos_data[0]\<close>; its status is not read. The loop has no early exit.
\<close>

definition apply_linalg_eig :: "build \<Rightarrow> 'm lapack \<Rightarrow> shape \<Rightarrow> 'm \<Rightarrow> int list \<Rightarrow> 'm outcome" where
  "apply_linalg_eig cfg L input m0 infos_data =
     (if \<not> use_lapack cfg then Raised Lapack_not_found (init m0 infos_data)
      else
        let batch_size = batchCount input;
            st1 = lapack_call L (Query (Info_slot 0)) (query_info L) (init m0 infos_data);
            lwork = max 1 (to_int (real_impl (query_work L)))
        in Returned (fold (\<lambda>i. lapack_call L (Factor i [lwork] (Info_slot i)) (status L i))
                       [0..<batch_size] st1))"

subsection \<open>\<^verbatim>\<open>apply_lapack_eigh\<close> and \<^verbatim>\<open>apply_triangular_solve\<close>\<close>

text \<open>
  Both loops have the same shape: call the routine on matrix \<open>i\<close> with status pointer
  \<^verbatim>\<open>&infos_data[i]\<close>, then \<^verbatim>\<open>if (*info_working_ptr != 0) return;\<close>.
\<close>

function early_exit_loop :: "'m lapack \<Rightarrow> int list \<Rightarrow> nat \<Rightarrow> nat \<Rightarrow> 'm kstate \<Rightarrow> 'm kstate" where
  "early_exit_loop L ws batch_size i st =
     (if i < batch_size then
        (let st' = lapack_call L (Factor i ws (Info_slot i)) (status L i) st
         in if infos st' ! i \<noteq> 0 then st'
            else early_exit_loop L ws batch_size (i + 1) st')
      else st)"
  by pat_completeness auto
termination
  by (relation "measure (\<lambda>(L, ws, batch_size, i, st). batch_size - i)") auto

text \<open>
  \<^verbatim>\<open>apply_lapack_eigh\<close>: the size query of \<^verbatim>\<open>lapackSyevd\<close> runs before the loop with status
  pointer \<^verbatim>\<open>infos_data\<close> (slot 0); \<open>is_complex\<close> is \<^verbatim>\<open>vectors.is_complex()\<close>.
\<close>

definition apply_lapack_eigh :: "build \<Rightarrow> 'm lapack \<Rightarrow> shape \<Rightarrow> bool \<Rightarrow> 'm \<Rightarrow> int list \<Rightarrow> 'm outcome" where
  "apply_lapack_eigh cfg L vectors is_complex m0 infos_data =
     (if \<not> use_lapack cfg then Raised Lapack_not_found (init m0 infos_data)
      else
        let batch_size = batchCount vectors;
            st1 = lapack_call L (Query (Info_slot 0)) (query_info L) (init m0 infos_data);
            lwork = max 1 (to_int (real_impl (query_work L)));
            liwork = max 1 (query_iwork L);
            lrwork = (if is_complex then max 1 (to_int (query_rwork L)) else - 1)
        in Returned (early_exit_loop L [lwork, lrwork, liwork] batch_size 0 st1))"

definition apply_triangular_solve :: "build \<Rightarrow> 'm lapack \<Rightarrow> shape \<Rightarrow> 'm \<Rightarrow> int list \<Rightarrow> 'm outcome" where
  "apply_triangular_solve cfg L A m0 infos_data =
     (if \<not> use_lapack cfg then Raised Lapack_not_found (init m0 infos_data)
      else Returned (early_exit_loop L [] (batchCount A) 0 (init m0 infos_data)))"

subsection \<open>\<^verbatim>\<open>apply_geqrf\<close> and \<^verbatim>\<open>apply_orgqr\<close>\<close>

text \<open>
  Both kernels keep the status in the local \<^verbatim>\<open>info\<close> and have no status vector. Their
  loops call the routine on matrix \<open>i\<close>, then \<^verbatim>\<open>TORCH_INTERNAL_ASSERT_DEBUG_ONLY(info == 0)\<close>.
\<close>

function assert_loop :: "build \<Rightarrow> 'm lapack \<Rightarrow> int \<Rightarrow> nat \<Rightarrow> nat \<Rightarrow> 'm kstate \<Rightarrow> 'm outcome" where
  "assert_loop cfg L lwork batch_size i st =
     (if i < batch_size then
        (let st' = lapack_call L (Factor i [lwork] Info_local) (status L i) st
         in if debug_asserts cfg \<and> status L i \<noteq> 0 then Raised Internal_assert st'
            else assert_loop cfg L lwork batch_size (i + 1) st')
      else Returned st)"
  by pat_completeness auto
termination
  by (relation "measure (\<lambda>(cfg, L, lwork, batch_size, i, st). batch_size - i)") auto

text \<open>
  \<^verbatim>\<open>apply_geqrf(input, tau, m, n)\<close>: \<open>m\<close> and \<open>n\<close> are \<^verbatim>\<open>int64_t\<close>; \<^verbatim>\<open>std::max<int>(1, n)\<close>
  narrows \<open>n\<close>.
\<close>

definition apply_geqrf :: "build \<Rightarrow> 'm lapack \<Rightarrow> shape \<Rightarrow> int \<Rightarrow> int \<Rightarrow> 'm \<Rightarrow> 'm outcome" where
  "apply_geqrf cfg L input m n m0 =
     (if \<not> use_lapack cfg then Raised Lapack_not_found (init m0 [])
      else
        let batch_size = batchCount input;
            st1 = lapack_call L (Query Info_local) (query_info L) (init m0 [])
        in if debug_asserts cfg \<and> query_info L \<noteq> 0 then Raised Internal_assert st1
           else
             let lwork = max (max 1 (narrow_int n)) (to_int (real_impl (query_work L)))
             in assert_loop cfg L lwork batch_size 0 st1)"

text \<open>
  \<^verbatim>\<open>apply_orgqr(self, tau, n_columns)\<close>: the early return on an empty tensor comes first,
  then the two \<^verbatim>\<open>TORCH_INTERNAL_ASSERT\<close>s (checked in every build), then the size query.
\<close>

definition apply_orgqr :: "build \<Rightarrow> 'm lapack \<Rightarrow> shape \<Rightarrow> shape \<Rightarrow> nat \<Rightarrow> 'm \<Rightarrow> 'm outcome" where
  "apply_orgqr cfg L self tau n_columns m0 =
     (if \<not> use_lapack cfg then Raised Lapack_not_found (init m0 [])
      else if numel self = 0 then Returned (init m0 [])
      else
        let batch_size = batchCount self;
            m = size_neg self 2;
            k = size_neg tau 1
        in if \<not> n_columns \<le> m then Raised Internal_assert (init m0 [])
           else if \<not> k \<le> n_columns then Raised Internal_assert (init m0 [])
           else
             let st1 = lapack_call L (Query Info_local) (query_info L) (init m0 [])
             in if debug_asserts cfg \<and> query_info L \<noteq> 0 then Raised Internal_assert st1
                else
                  let lwork = max 1 (to_int (real_impl (query_work L)))
                  in assert_loop cfg L lwork batch_size 0 st1)"

section \<open>Reading a run\<close>

text \<open>
  The calls of a log that write slot \<open>k\<close> of the status vector; the batch indices of the
  per-matrix calls; the primary workspace sizes passed to them; the number of matrices an
  early-exit loop processes.
\<close>

definition slot_writers :: "nat \<Rightarrow> event list \<Rightarrow> event list" where
  "slot_writers k tr = filter (\<lambda>e. info_dest e = Info_slot k) tr"

fun factor_index :: "event \<Rightarrow> nat list" where
  "factor_index (Factor i ws p) = [i]"
| "factor_index e = []"

definition factor_indices :: "event list \<Rightarrow> nat list" where
  "factor_indices tr = concat (map factor_index tr)"

fun factor_lwork :: "event \<Rightarrow> int list" where
  "factor_lwork (Factor i ws p) = take 1 ws"
| "factor_lwork e = []"

definition lworks :: "event list \<Rightarrow> int list" where
  "lworks tr = concat (map factor_lwork tr)"

fun is_query :: "event \<Rightarrow> bool" where
  "is_query (Query p) = True"
| "is_query e = False"

definition n_processed :: "(nat \<Rightarrow> int) \<Rightarrow> nat \<Rightarrow> nat" where
  "n_processed st b = (case find (\<lambda>i. st i \<noteq> 0) [0..<b] of None \<Rightarrow> b | Some f \<Rightarrow> Suc f)"

text \<open>
  Proof devices: the per-matrix calls of a loop that runs over the matrices \<open>a..<b\<close>
  without stopping, with the status written to the status vector or kept local.
\<close>

definition slot_steps :: "'m lapack \<Rightarrow> int list \<Rightarrow> nat \<Rightarrow> nat \<Rightarrow> 'm kstate \<Rightarrow> 'm kstate" where
  "slot_steps L ws a b st =
     fold (\<lambda>i. lapack_call L (Factor i ws (Info_slot i)) (status L i)) [a..<b] st"

definition local_steps :: "'m lapack \<Rightarrow> int \<Rightarrow> nat \<Rightarrow> nat \<Rightarrow> 'm kstate \<Rightarrow> 'm kstate" where
  "local_steps L lwork a b st =
     fold (\<lambda>i. lapack_call L (Factor i [lwork] Info_local) (status L i)) [a..<b] st"

text \<open>
  The workspace sizes that \<^verbatim>\<open>apply_linalg_eig\<close> (\<^verbatim>\<open>lwork\<close>) and \<^verbatim>\<open>apply_lapack_eigh\<close>
  (\<^verbatim>\<open>lwork\<close>, \<^verbatim>\<open>lrwork\<close>, \<^verbatim>\<open>liwork\<close>) pass to the per-matrix calls.
\<close>

definition eig_lwork :: "'m lapack \<Rightarrow> int" where
  "eig_lwork L = max 1 (to_int (real_impl (query_work L)))"

definition eigh_sizes :: "'m lapack \<Rightarrow> bool \<Rightarrow> int list" where
  "eigh_sizes L is_complex =
     [max 1 (to_int (real_impl (query_work L))),
      (if is_complex then max 1 (to_int (query_rwork L)) else - 1),
      max 1 (query_iwork L)]"

text \<open>The slots of the status vector that the per-matrix calls of a log write, in order.\<close>

fun factor_slot :: "event \<Rightarrow> nat list" where
  "factor_slot (Factor i ws (Info_slot k)) = [k]"
| "factor_slot e = []"

definition step_slots :: "event list \<Rightarrow> nat list" where
  "step_slots tr = concat (map factor_slot tr)"

text \<open>
  What a run with early exit leaves behind, for a status vector that was \<open>xs\<close> at the
  call. \<open>stopped_at sts xs f out\<close>: the kernel returned; the slots before \<open>f\<close> hold zero and
  slot \<open>f\<close> holds the status of matrix \<open>f\<close>; the per-matrix calls were made for the
  matrices \<open>0..f\<close>, each writing its own slot; the slots after \<open>f\<close> hold what they held.
  \<open>completed b xs out\<close>: the kernel returned; the per-matrix calls were made for all \<open>b\<close>
  matrices, each writing its own slot, and the slots \<open>0..<b\<close> hold zero.
\<close>

definition stopped_at :: "(nat \<Rightarrow> int) \<Rightarrow> int list \<Rightarrow> nat \<Rightarrow> 'm outcome \<Rightarrow> bool" where
  "stopped_at sts xs f out \<longleftrightarrow>
     raised out = None \<and> length (infos (final out)) = length xs
     \<and> (\<forall>j<f. infos (final out) ! j = 0) \<and> infos (final out) ! f = sts f
     \<and> factor_indices (trace (final out)) = [0..<Suc f]
     \<and> step_slots (trace (final out)) = [0..<Suc f]
     \<and> (\<forall>j. f < j \<and> j < length xs \<longrightarrow> infos (final out) ! j = xs ! j)"

definition completed :: "nat \<Rightarrow> int list \<Rightarrow> 'm outcome \<Rightarrow> bool" where
  "completed b xs out \<longleftrightarrow>
     raised out = None \<and> length (infos (final out)) = length xs
     \<and> (\<forall>j<b. infos (final out) ! j = 0)
     \<and> factor_indices (trace (final out)) = [0..<b]
     \<and> step_slots (trace (final out)) = [0..<b]"

text \<open>
  Sample inputs: a release and a debug build with LAPACK, and a LAPACK whose calls leave
  the numeric buffers as they are, with the query status \<open>qinfo\<close>, the size hint \<open>hint\<close>
  and the per-matrix statuses \<open>sts\<close>.
\<close>

definition release_build :: build where
  "release_build = \<lparr>use_lapack = True, debug_asserts = False\<rparr>"

definition debug_build :: build where
  "debug_build = \<lparr>use_lapack = True, debug_asserts = True\<rparr>"

definition sample_lapack :: "int \<Rightarrow> scalar \<Rightarrow> (nat \<Rightarrow> int) \<Rightarrow> 'm lapack" where
  "sample_lapack qinfo hint sts =
     \<lparr>query_info = qinfo, query_work = hint, query_rwork = 0, query_iwork = 1,
      status = sts, effect = (\<lambda>ev m. m)\<rparr>"

text \<open>
  For \<^verbatim>\<open>apply_cholesky_inverse\<close>: the log of a run over \<open>b\<close> matrices; \<open>frame L S\<close> says
  that the call of \<^verbatim>\<open>lapackCholeskyInverse\<close> on matrix \<open>i\<close> changes no element outside
  matrix \<open>i\<close> (matrices of \<open>S\<close> elements each) and keeps the length of the buffer;
  \<open>mirrored upper buf self n stride\<close> says that in the matrix at \<open>self\<close> every element the
  pass assigns is the conjugate of its transposed element.
\<close>

definition chol_events :: "nat \<Rightarrow> event list" where
  "chol_events b = concat (map (\<lambda>i. [Factor i [] (Info_slot i), Reflect i]) [0..<b])"

definition frame :: "scalar list lapack \<Rightarrow> nat \<Rightarrow> bool" where
  "frame L S \<longleftrightarrow>
     (\<forall>i m. length (effect L (Factor i [] (Info_slot i)) m) = length m
        \<and> (\<forall>p. p < i * S \<or> (i + 1) * S \<le> p \<longrightarrow> effect L (Factor i [] (Info_slot i)) m ! p = m ! p))"

definition mirrored :: "bool \<Rightarrow> scalar list \<Rightarrow> nat \<Rightarrow> nat \<Rightarrow> nat \<Rightarrow> bool" where
  "mirrored upper buf self n stride \<longleftrightarrow>
     (\<forall>i j. in_tri upper n i j \<longrightarrow> elem buf self stride i j = conj_impl (elem buf self stride j i))"

section \<open>Properties of the symmetrization pass\<close>


lemma fold_concat: "fold f (concat xss) = fold (fold f) xss"
  by (induction xss) simp_all

lemma loop_as_pairs:
  "loop upper self n stride start stop buf =
     reflect_pairs self stride (tri_pairs upper n start stop) buf"
  by (simp add: loop_def loop_upper_def loop_lower_def reflect_pairs_def tri_pairs_def
      fold_concat fold_map comp_def)


lemma idx_inj:
  assumes "j < stride" "j' < stride" "i * stride + j = i' * stride + (j'::nat)"
  shows "i = i' \<and> j = j'"
proof -
  have a: "(i * stride + j) div stride = i" using assms(1) by simp
  have b: "(i' * stride + j') div stride = i'" using assms(2) by simp
  have "i = i'" using a b assms(3) by simp
  then show ?thesis using assms(3) by simp
qed

lemma in_tri_bounds: "in_tri upper n i j \<Longrightarrow> i < n \<and> j < n \<and> i \<noteq> j \<and> \<not> in_tri upper n j i"
  by (auto simp: in_tri_def split: if_splits)

lemma idx_lt:
  assumes "i < n" "j < n" "n \<le> stride"
  shows "i * stride + j < n * (stride::nat)"
proof -
  have "Suc i * stride \<le> n * stride" using assms(1) by (intro mult_le_mono1) simp
  then have "i * stride + stride \<le> n * stride" by simp
  then show ?thesis using assms by linarith
qed

lemma idx_in_buf:
  assumes "i < n" "j < n" "holds_matrix buf self n stride"
  shows "self + (i * stride + j) < length buf"
proof -
  have "i * stride \<le> (n - 1) * stride" using assms(1) by (intro mult_le_mono1) simp
  moreover have "self + ((n - 1) * stride + n) \<le> length buf"
    using assms(1,3) by (simp add: holds_matrix_def)
  ultimately show ?thesis using assms(2) by linarith
qed

lemma holds_matrixI:
  assumes "n \<le> stride" "self + n * stride \<le> length buf"
  shows "holds_matrix buf self n stride"
proof (cases "0 < n")
  case True
  then have "n * stride = (n - 1) * stride + stride" by (cases n) simp_all
  then show ?thesis using assms by (simp add: holds_matrix_def)
next
  case False
  then show ?thesis by (simp add: holds_matrix_def)
qed



lemma reflect_pairs_char:
  assumes "n \<le> stride" "holds_matrix buf self n stride"
    and "\<forall>(i, j) \<in> set ps. in_tri upper n i j"
  shows "length (reflect_pairs self stride ps buf) = length buf
    \<and> (\<forall>(i, j) \<in> set ps. elem (reflect_pairs self stride ps buf) self stride i j
          = conj_impl (elem buf self stride j i))
    \<and> (\<forall>p. (\<forall>(i, j) \<in> set ps. p \<noteq> self + (i * stride + j))
          \<longrightarrow> reflect_pairs self stride ps buf ! p = buf ! p)"
  using assms(3)
proof (induction ps rule: rev_induct)
  case Nil
  then show ?case by (simp add: reflect_pairs_def)
next
  case (snoc x ps)
  obtain i j where x: "x = (i, j)" by (cases x)
  let ?r = "reflect_pairs self stride ps buf"
  have step: "reflect_pairs self stride (ps @ [x]) buf = reflect_elem self stride i j ?r"
    by (simp add: reflect_pairs_def x)
  have tri: "in_tri upper n i j" and tris: "\<forall>(i, j) \<in> set ps. in_tri upper n i j"
    using snoc.prems x by auto
  from snoc.IH[OF tris] have
    len: "length ?r = length buf"
    and dst: "\<And>a b. (a, b) \<in> set ps \<Longrightarrow> elem ?r self stride a b = conj_impl (elem buf self stride b a)"
    and oth: "\<And>p. (\<forall>(i, j) \<in> set ps. p \<noteq> self + (i * stride + j)) \<Longrightarrow> ?r ! p = buf ! p"
    by auto
  have src_free: "?r ! (self + (j * stride + i)) = buf ! (self + (j * stride + i))"
  proof (rule oth, clarify)
    fix a b assume ab: "(a, b) \<in> set ps" and eq: "self + (j * stride + i) = self + (a * stride + b)"
    from tris ab have t2: "in_tri upper n a b" by auto
    from in_tri_bounds[OF tri] in_tri_bounds[OF t2] assms(1)
    have "i < stride" "b < stride" by auto
    with eq idx_inj[of i stride b j a] have "j = a" "i = b" by auto
    with tri t2 in_tri_bounds[OF tri] show False by auto
  qed
  have in_buf: "self + (i * stride + j) < length ?r"
    using idx_in_buf[of i n j buf self stride] in_tri_bounds[OF tri] assms(2) len by simp
  have new: "reflect_elem self stride i j ?r
      = ?r[self + (i * stride + j) := conj_impl (buf ! (self + (j * stride + i)))]"
    by (simp add: reflect_elem_def src_free)
  show ?case
  proof (intro conjI)
    show "length (reflect_pairs self stride (ps @ [x]) buf) = length buf"
      by (simp add: step new len)
  next
    show "\<forall>(a, b) \<in> set (ps @ [x]). elem (reflect_pairs self stride (ps @ [x]) buf) self stride a b
          = conj_impl (elem buf self stride b a)"
    proof (clarify)
      fix a b assume ab: "(a, b) \<in> set (ps @ [x])"
      then have t2: "in_tri upper n a b" using snoc.prems by auto
      show "elem (reflect_pairs self stride (ps @ [x]) buf) self stride a b
          = conj_impl (elem buf self stride b a)"
      proof (cases "self + (a * stride + b) = self + (i * stride + j)")
        case True
        from in_tri_bounds[OF tri] in_tri_bounds[OF t2] assms(1)
        have "j < stride" "b < stride" by auto
        with True idx_inj[of b stride j a i] have "a = i" "b = j" by auto
        then show ?thesis using in_buf by (simp add: step new elem_def)
      next
        case False
        then have "(a, b) \<in> set ps" using ab x by auto
        from dst[OF this] False show ?thesis by (simp add: step new elem_def)
      qed
    qed
  next
    show "\<forall>p. (\<forall>(i, j) \<in> set (ps @ [x]). p \<noteq> self + (i * stride + j))
          \<longrightarrow> reflect_pairs self stride (ps @ [x]) buf ! p = buf ! p"
    proof (intro allI impI)
      fix p assume p: "\<forall>(i, j) \<in> set (ps @ [x]). p \<noteq> self + (i * stride + j)"
      then have "p \<noteq> self + (i * stride + j)" "\<forall>(i, j) \<in> set ps. p \<noteq> self + (i * stride + j)"
        using x by auto
      then show "reflect_pairs self stride (ps @ [x]) buf ! p = buf ! p"
        using oth[of p] by (simp add: step new)
    qed
  qed
qed


lemma valid_pairsD: "valid_pairs upper n ps \<Longrightarrow> (i, j) \<in> set ps \<Longrightarrow> in_tri upper n i j"
  by (auto simp: valid_pairs_def)

lemma reflect_pairs_length:
  assumes "n \<le> stride" "holds_matrix buf self n stride" "valid_pairs upper n ps"
  shows "length (reflect_pairs self stride ps buf) = length buf"
  using reflect_pairs_char[OF assms(1,2), of ps upper] assms(3) by (simp add: valid_pairs_def)

lemma reflect_pairs_dst:
  assumes "n \<le> stride" "holds_matrix buf self n stride" "valid_pairs upper n ps"
    and "(i, j) \<in> set ps"
  shows "reflect_pairs self stride ps buf ! (self + (i * stride + j))
       = conj_impl (buf ! (self + (j * stride + i)))"
proof -
  have "\<forall>(i, j) \<in> set ps. elem (reflect_pairs self stride ps buf) self stride i j
          = conj_impl (elem buf self stride j i)"
    using reflect_pairs_char[OF assms(1,2), of ps upper] assms(3) by (simp add: valid_pairs_def)
  with assms(4) show ?thesis by (auto simp: elem_def)
qed

lemma reflect_pairs_other:
  assumes "n \<le> stride" "holds_matrix buf self n stride" "valid_pairs upper n ps"
    and "\<And>i j. (i, j) \<in> set ps \<Longrightarrow> p \<noteq> self + (i * stride + j)"
  shows "reflect_pairs self stride ps buf ! p = buf ! p"
proof -
  have "\<forall>p. (\<forall>(i, j) \<in> set ps. p \<noteq> self + (i * stride + j))
          \<longrightarrow> reflect_pairs self stride ps buf ! p = buf ! p"
    using reflect_pairs_char[OF assms(1,2), of ps upper] assms(3) by (simp add: valid_pairs_def)
  moreover have "\<forall>(i, j) \<in> set ps. p \<noteq> self + (i * stride + j)" using assms(4) by auto
  ultimately show ?thesis by blast
qed

lemma src_not_dst:
  assumes "in_tri upper n i j" "in_tri upper n a b" "n \<le> stride"
  shows "self + (j * stride + i) \<noteq> self + (a * stride + b)"
proof
  assume eq: "self + (j * stride + i) = self + (a * stride + b)"
  from in_tri_bounds[OF assms(1)] in_tri_bounds[OF assms(2)] assms(3)
  have "i < stride" "b < stride" by auto
  with eq idx_inj[of i stride b j a] have "j = a" "i = b" by auto
  with assms(1,2) in_tri_bounds[OF assms(1)] show False by auto
qed

lemma reflect_pairs_src:
  assumes "n \<le> stride" "holds_matrix buf self n stride" "valid_pairs upper n ps"
    and "in_tri upper n i j"
  shows "reflect_pairs self stride ps buf ! (self + (j * stride + i)) = buf ! (self + (j * stride + i))"
  using assms(3,4) src_not_dst[OF assms(4) _ assms(1)]
  by (intro reflect_pairs_other[OF assms(1,2,3)]) (auto dest: valid_pairsD)

lemma reflect_pairs_same_set:
  assumes "n \<le> stride" "holds_matrix buf self n stride"
    and "valid_pairs upper n ps" and "set qs = set ps"
  shows "reflect_pairs self stride qs buf = reflect_pairs self stride ps buf"
proof (rule nth_equalityI)
  have qs: "valid_pairs upper n qs" using assms(3,4) by (simp add: valid_pairs_def)
  show "length (reflect_pairs self stride qs buf) = length (reflect_pairs self stride ps buf)"
    by (simp add: reflect_pairs_length[OF assms(1,2,3)] reflect_pairs_length[OF assms(1,2) qs])
  fix p assume "p < length (reflect_pairs self stride qs buf)"
  show "reflect_pairs self stride qs buf ! p = reflect_pairs self stride ps buf ! p"
  proof (cases "\<exists>i j. (i, j) \<in> set ps \<and> p = self + (i * stride + j)")
    case True
    then obtain i j where ij: "(i, j) \<in> set ps" "p = self + (i * stride + j)" by auto
    then have ijq: "(i, j) \<in> set qs" using assms(4) by simp
    show ?thesis
      by (simp add: ij(2) reflect_pairs_dst[OF assms(1,2,3) ij(1)]
          reflect_pairs_dst[OF assms(1,2) qs ijq])
  next
    case False
    then have np: "\<And>i j. (i, j) \<in> set ps \<Longrightarrow> p \<noteq> self + (i * stride + j)" by auto
    then have nq: "\<And>i j. (i, j) \<in> set qs \<Longrightarrow> p \<noteq> self + (i * stride + j)"
      using assms(4) by simp
    show ?thesis
      by (simp add: reflect_pairs_other[OF assms(1,2,3) np] reflect_pairs_other[OF assms(1,2) qs nq])
  qed
qed

lemma reflect_pairs_idem:
  assumes "n \<le> stride" "holds_matrix buf self n stride"
    and "valid_pairs upper n ps"
  shows "reflect_pairs self stride ps (reflect_pairs self stride ps buf)
       = reflect_pairs self stride ps buf"
proof (rule nth_equalityI)
  let ?r = "reflect_pairs self stride ps buf"
  have len: "holds_matrix ?r self n stride"
    using reflect_pairs_length[OF assms] assms(2) by (simp add: holds_matrix_def)
  show "length (reflect_pairs self stride ps ?r) = length ?r"
    by (rule reflect_pairs_length[OF assms(1) len assms(3)])
  fix p assume "p < length (reflect_pairs self stride ps ?r)"
  show "reflect_pairs self stride ps ?r ! p = ?r ! p"
  proof (cases "\<exists>i j. (i, j) \<in> set ps \<and> p = self + (i * stride + j)")
    case True
    then obtain i j where ij: "(i, j) \<in> set ps" "p = self + (i * stride + j)" by auto
    have tri: "in_tri upper n i j" using valid_pairsD[OF assms(3) ij(1)] .
    have "reflect_pairs self stride ps ?r ! p = conj_impl (?r ! (self + (j * stride + i)))"
      by (simp add: ij(2) reflect_pairs_dst[OF assms(1) len assms(3) ij(1)])
    also have "\<dots> = conj_impl (buf ! (self + (j * stride + i)))"
      by (simp add: reflect_pairs_src[OF assms tri])
    also have "\<dots> = ?r ! p"
      by (simp add: ij(2) reflect_pairs_dst[OF assms ij(1)])
    finally show ?thesis .
  next
    case False
    then have np: "\<And>i j. (i, j) \<in> set ps \<Longrightarrow> p \<noteq> self + (i * stride + j)" by auto
    show ?thesis by (rule reflect_pairs_other[OF assms(1) len assms(3) np])
  qed
qed

lemma set_tri_pairs_gen:
  "set (tri_pairs upper n start stop)
     = {(i, j). start \<le> i \<and> i < stop \<and> (if upper then i < j \<and> j < n else j < i)}"
  by (auto simp: tri_pairs_def)

lemma mem_tri_pairs: "(i, j) \<in> set (tri_pairs upper n 0 n) \<longleftrightarrow> in_tri upper n i j"
  by (auto simp: set_tri_pairs_gen in_tri_def)

lemma tri_pairs_valid: "valid_pairs upper n (tri_pairs upper n 0 n)"
  by (auto simp: valid_pairs_def mem_tri_pairs)

lemma parallel_for_as_pairs:
  "parallel_for chunks (loop upper self n stride) buf
     = reflect_pairs self stride (chunk_pairs upper n chunks) buf"
proof -
  have "(\<lambda>(s, e). loop upper self n stride s e)
      = fold (\<lambda>(i, j). reflect_elem self stride i j) \<circ> (\<lambda>(s, e). tri_pairs upper n s e)"
    by (auto simp: fun_eq_iff loop_as_pairs reflect_pairs_def)
  then show ?thesis
    by (simp add: parallel_for_def chunk_pairs_def reflect_pairs_def fold_concat fold_map)
qed

lemma set_chunk_pairs:
  assumes "covers 0 n chunks"
  shows "set (chunk_pairs upper n chunks) = set (tri_pairs upper n 0 n)"
proof -
  have rows: "(\<exists>(s, e) \<in> set chunks. s \<le> i \<and> i < e) \<longleftrightarrow> i < n" for i
  proof -
    have "i \<in> set (concat (map (\<lambda>(s, e). [s..<e]) chunks)) \<longleftrightarrow> i \<in> set [0..<n]"
      using assms by (simp add: covers_def)
    then show ?thesis by auto
  qed
  have "set (chunk_pairs upper n chunks)
      = {(i, j). (\<exists>(s, e) \<in> set chunks. s \<le> i \<and> i < e) \<and> (if upper then i < j \<and> j < n else j < i)}"
    by (auto simp: chunk_pairs_def set_tri_pairs_gen)
  also have "\<dots> = set (tri_pairs upper n 0 n)"
    by (simp only: rows set_tri_pairs_gen) auto
  finally show ?thesis .
qed

lemma apply_reflect_as_pairs:
  assumes "n \<le> stride" "holds_matrix buf self n stride" "256 \<le> n \<longrightarrow> covers 0 n chunks"
  shows "apply_reflect_conj_tri_single chunks buf self n stride upper
       = reflect_pairs self stride (tri_pairs upper n 0 n) buf"
proof (cases "n < 256")
  case True
  then show ?thesis by (simp add: apply_reflect_conj_tri_single_def loop_as_pairs)
next
  case False
  then have "covers 0 n chunks" using assms(3) by simp
  from reflect_pairs_same_set[OF assms(1,2) tri_pairs_valid set_chunk_pairs[OF this]] False
  show ?thesis by (simp add: apply_reflect_conj_tri_single_def parallel_for_as_pairs)
qed

text \<open>
  C1, as stated, fails. In the column-major matrix, the pass with \<open>upper\<close> set does not
  set the element in row 0 and column 1 to the conjugate of the one in row 1 and column
  0: it leaves it as it was, and overwrites the element in row 1 and column 0, which the
  claim says is left unchanged.
\<close>

theorem reflect_upper_changes_lower:
  "entry (apply_reflect_conj_tri_single [] [Complex_val (Complex 1 0), Complex_val (Complex 5 6),
        Complex_val (Complex 2 3), Complex_val (Complex 4 0)] 0 2 2 True) 0 2 0 1
     = entry [Complex_val (Complex 1 0), Complex_val (Complex 5 6),
        Complex_val (Complex 2 3), Complex_val (Complex 4 0)] 0 2 0 1
   \<and> entry (apply_reflect_conj_tri_single [] [Complex_val (Complex 1 0), Complex_val (Complex 5 6),
        Complex_val (Complex 2 3), Complex_val (Complex 4 0)] 0 2 2 True) 0 2 0 1
     \<noteq> conj_impl (entry [Complex_val (Complex 1 0), Complex_val (Complex 5 6),
        Complex_val (Complex 2 3), Complex_val (Complex 4 0)] 0 2 1 0)
   \<and> entry (apply_reflect_conj_tri_single [] [Complex_val (Complex 1 0), Complex_val (Complex 5 6),
        Complex_val (Complex 2 3), Complex_val (Complex 4 0)] 0 2 2 True) 0 2 1 0
     \<noteq> entry [Complex_val (Complex 1 0), Complex_val (Complex 5 6),
        Complex_val (Complex 2 3), Complex_val (Complex 4 0)] 0 2 1 0"
  by (simp add: entry_def apply_reflect_conj_tri_single_def loop_def loop_upper_def
      reflect_elem_def upt_rec complex_eq_iff)

text \<open>
  C1, amended. For a square \<open>n\<close>-by-\<open>n\<close> matrix \<open>M\<close> held column-major in a buffer with
  leading dimension \<open>stride\<close> (\<open>n \<le> stride\<close>, the matrix inside the buffer), the pass with
  \<open>upper\<close> set makes \<open>M[j,i] = conj(M[i,j])\<close> for each row \<open>i\<close> and each column \<open>j > i\<close>: it
  fills the lower triangle from the upper one; with \<open>upper\<close> unset it makes
  \<open>M[j,i] = conj(M[i,j])\<close> for each column \<open>j < i\<close>: it fills the upper triangle from the
  lower one. The right-hand side is read in the buffer before the pass. Every other
  element of the matrix, the diagonal and the triangle that is read, keeps its value; so
  does everything else in the buffer, and the buffer keeps its length. When \<open>256 \<le> n\<close>
  the loop runs in the chunks of a schedule that covers \<open>0..<n\<close>.
\<close>

theorem reflect_fills_triangle:
  assumes "n \<le> stride" "holds_matrix buf self n stride" "256 \<le> n \<longrightarrow> covers 0 n chunks"
  shows "length (apply_reflect_conj_tri_single chunks buf self n stride upper) = length buf
    \<and> (\<forall>i j. in_tri upper n i j \<longrightarrow>
          entry (apply_reflect_conj_tri_single chunks buf self n stride upper) self stride j i
            = conj_impl (entry buf self stride i j))
    \<and> (\<forall>r c. r < n \<and> c < n \<and> \<not> in_tri upper n c r \<longrightarrow>
          entry (apply_reflect_conj_tri_single chunks buf self n stride upper) self stride r c
            = entry buf self stride r c)
    \<and> (\<forall>p. (\<forall>i j. in_tri upper n i j \<longrightarrow> p \<noteq> self + (i * stride + j)) \<longrightarrow>
          apply_reflect_conj_tri_single chunks buf self n stride upper ! p = buf ! p)"
proof -
  note v = tri_pairs_valid[of upper n]
  have other: "reflect_pairs self stride (tri_pairs upper n 0 n) buf ! p = buf ! p"
    if "\<forall>i j. in_tri upper n i j \<longrightarrow> p \<noteq> self + (i * stride + j)" for p
  proof -
    from that
    have "\<And>i j. (i, j) \<in> set (tri_pairs upper n 0 n) \<Longrightarrow> p \<noteq> self + (i * stride + j)"
      by (simp add: mem_tri_pairs)
    then show ?thesis by (rule reflect_pairs_other[OF assms(1,2) v])
  qed
  show ?thesis
    unfolding apply_reflect_as_pairs[OF assms] entry_def
  proof (intro conjI allI impI)
    show "length (reflect_pairs self stride (tri_pairs upper n 0 n) buf) = length buf"
      by (rule reflect_pairs_length[OF assms(1,2) v])
  next
    fix i j assume "in_tri upper n i j"
    then have "(i, j) \<in> set (tri_pairs upper n 0 n)" by (simp add: mem_tri_pairs)
    then show "reflect_pairs self stride (tri_pairs upper n 0 n) buf ! (self + (i * stride + j))
        = conj_impl (buf ! (self + (j * stride + i)))"
      by (rule reflect_pairs_dst[OF assms(1,2) v])
  next
    fix r c assume rc: "r < n \<and> c < n \<and> \<not> in_tri upper n c r"
    show "reflect_pairs self stride (tri_pairs upper n 0 n) buf ! (self + (c * stride + r))
        = buf ! (self + (c * stride + r))"
    proof (rule other, intro allI impI notI)
      fix i j assume tri: "in_tri upper n i j"
        and eq: "self + (c * stride + r) = self + (i * stride + j)"
      have "r < stride" "j < stride" using rc in_tri_bounds[OF tri] assms(1) by auto
      with eq idx_inj[of r stride j c i] have "c = i" "r = j" by auto
      with tri rc show False by simp
    qed
  next
    fix p assume "\<forall>i j. in_tri upper n i j \<longrightarrow> p \<noteq> self + (i * stride + j)"
    then show "reflect_pairs self stride (tri_pairs upper n 0 n) buf ! p = buf ! p"
      by (rule other)
  qed
qed

theorem reflect_fills_triangle_witness:
  "(2::nat) \<le> 2 \<and> holds_matrix [Complex_val (Complex 1 0), Complex_val (Complex 5 6),
        Complex_val (Complex 2 3), Complex_val (Complex 4 0)] 0 2 2
   \<and> \<not> (256::nat) \<le> 2 \<and> in_tri True 2 0 1 \<and> \<not> in_tri True 2 1 0
   \<and> entry (apply_reflect_conj_tri_single [] [Complex_val (Complex 1 0), Complex_val (Complex 5 6),
        Complex_val (Complex 2 3), Complex_val (Complex 4 0)] 0 2 2 True) 0 2 1 0
      = Complex_val (Complex 2 (- 3))
   \<and> entry (apply_reflect_conj_tri_single [] [Complex_val (Complex 1 0), Complex_val (Complex 5 6),
        Complex_val (Complex 2 3), Complex_val (Complex 4 0)] 0 2 2 True) 0 2 0 1
      = Complex_val (Complex 2 3)"
proof -
  let ?buf = "[Complex_val (Complex 1 0), Complex_val (Complex 5 6),
        Complex_val (Complex 2 3), Complex_val (Complex 4 0)]"
  let ?res = "apply_reflect_conj_tri_single [] ?buf 0 2 2 True"
  have tri: "in_tri True 2 0 1" and ntri: "\<not> in_tri True 2 1 0" by (simp_all add: in_tri_def)
  have hm: "holds_matrix ?buf 0 2 2" by (simp add: holds_matrix_def)
  note all = reflect_fills_triangle[where n = 2 and stride = 2 and self = 0 and buf = ?buf
      and chunks = "[]" and upper = True]
  from all hm
  have "\<forall>i j. in_tri True 2 i j \<longrightarrow> entry ?res 0 2 j i = conj_impl (entry ?buf 0 2 i j)"
    by simp
  with tri have "entry ?res 0 2 1 0 = conj_impl (entry ?buf 0 2 0 1)" by blast
  also have "\<dots> = Complex_val (Complex 2 (- 3))"
    by (simp add: entry_def complex_eq_iff)
  finally have lower: "entry ?res 0 2 1 0 = Complex_val (Complex 2 (- 3))" .
  from all hm
  have "\<forall>r c. r < 2 \<and> c < 2 \<and> \<not> in_tri True 2 c r \<longrightarrow> entry ?res 0 2 r c = entry ?buf 0 2 r c"
    by simp
  then have "(0::nat) < 2 \<and> (1::nat) < 2 \<and> \<not> in_tri True 2 1 0
      \<longrightarrow> entry ?res 0 2 0 1 = entry ?buf 0 2 0 1"
    by blast
  with ntri have "entry ?res 0 2 0 1 = entry ?buf 0 2 0 1" by simp
  also have "\<dots> = Complex_val (Complex 2 3)" by (simp add: entry_def)
  finally have upper: "entry ?res 0 2 0 1 = Complex_val (Complex 2 3)" .
  from tri ntri hm lower upper show ?thesis by simp
qed

text \<open>
  C6. Applying the pass twice gives the same buffer as applying it once, for either value
  of \<open>upper\<close> and for real and complex elements alike (a buffer may hold either kind of
  \<open>scalar\<close>); the two runs may use different schedules.
\<close>

theorem reflect_idempotent:
  assumes "n \<le> stride" "holds_matrix buf self n stride"
    and "256 \<le> n \<longrightarrow> covers 0 n chunks" and "256 \<le> n \<longrightarrow> covers 0 n chunks'"
  shows "apply_reflect_conj_tri_single chunks'
           (apply_reflect_conj_tri_single chunks buf self n stride upper) self n stride upper
       = apply_reflect_conj_tri_single chunks buf self n stride upper"
proof -
  let ?r = "reflect_pairs self stride (tri_pairs upper n 0 n) buf"
  note v = tri_pairs_valid[of upper n]
  have len: "holds_matrix ?r self n stride"
    using reflect_pairs_length[OF assms(1,2) v] assms(2) by (simp add: holds_matrix_def)
  show ?thesis
    unfolding apply_reflect_as_pairs[OF assms(1,2,3)] apply_reflect_as_pairs[OF assms(1) len assms(4)]
    by (rule reflect_pairs_idem[OF assms(1,2) v])
qed

theorem reflect_idempotent_witness:
  "(2::nat) \<le> 2 \<and> holds_matrix [Complex_val (Complex 1 0), Complex_val (Complex 0 0),
        Complex_val (Complex 2 3), Real_val 4] 0 2 2
   \<and> \<not> (256::nat) \<le> 2
   \<and> apply_reflect_conj_tri_single []
        (apply_reflect_conj_tri_single [] [Complex_val (Complex 1 0), Complex_val (Complex 0 0),
           Complex_val (Complex 2 3), Real_val 4] 0 2 2 False) 0 2 2 False
      = apply_reflect_conj_tri_single [] [Complex_val (Complex 1 0), Complex_val (Complex 0 0),
           Complex_val (Complex 2 3), Real_val 4] 0 2 2 False"
  using reflect_idempotent[where n = 2 and stride = 2 and self = 0 and chunks = "[]"
      and chunks' = "[]" and upper = False
      and buf = "[Complex_val (Complex 1 0), Complex_val (Complex 0 0),
        Complex_val (Complex 2 3), Real_val 4]"]
  by (simp add: holds_matrix_def)

text \<open>
  C9. The result of the row loop does not depend on the threading decision: run over the
  chunks of any schedule that covers the rows \<open>0..<n\<close> (the path through
  \<^verbatim>\<open>at::parallel_for\<close>, taken when \<open>256 \<le> n\<close>) it gives the buffer that the single call
  \<^verbatim>\<open>loop(0, n)\<close> gives (the path taken when \<open>n < 256\<close>), for every \<open>n\<close> and either value
  of \<open>upper\<close>.
\<close>

theorem parallel_equals_sequential:
  assumes "n \<le> stride" "holds_matrix buf self n stride" "covers 0 n chunks"
  shows "parallel_for chunks (loop upper self n stride) buf = loop upper self n stride 0 n buf"
  unfolding parallel_for_as_pairs loop_as_pairs
  by (rule reflect_pairs_same_set[OF assms(1,2) tri_pairs_valid set_chunk_pairs[OF assms(3)]])

theorem parallel_equals_sequential_witness:
  "(3::nat) \<le> 3 \<and> holds_matrix (map Real_val [1, 2, 3, 4, 5, 6, 7, 8, 9]) 0 3 3
   \<and> covers 0 3 [(1, 3), (0, 1)]
   \<and> parallel_for [(1, 3), (0, 1)] (loop True 0 3 3) (map Real_val [1, 2, 3, 4, 5, 6, 7, 8, 9])
      = loop True 0 3 3 0 3 (map Real_val [1, 2, 3, 4, 5, 6, 7, 8, 9])"
proof -
  have c: "covers 0 3 [(1, 3), (0, 1)]"
    by (auto simp: covers_def)
  have hm: "holds_matrix (map Real_val [1, 2, 3, 4, 5, 6, 7, 8, 9]) 0 3 3"
    by (simp add: holds_matrix_def)
  from parallel_equals_sequential[where n = 3 and stride = 3 and self = 0 and upper = True
      and buf = "map Real_val [1, 2, 3, 4, 5, 6, 7, 8, 9]" and chunks = "[(1, 3), (0, 1)]"] c hm
  show ?thesis by simp
qed

section \<open>Properties of the kernels\<close>

subsection \<open>Calls, sample inputs, conversions\<close>

declare early_exit_loop.simps [simp del]

declare assert_loop.simps [simp del]

lemma lapack_call_mem: "mem (lapack_call L ev info st) = effect L ev (mem st)"
  by (simp add: lapack_call_def)

lemma lapack_call_trace: "trace (lapack_call L ev info st) = trace st @ [ev]"
  by (simp add: lapack_call_def)

lemma lapack_call_infos_slot:
  "infos (lapack_call L (Factor i ws (Info_slot k)) info st) = (infos st)[k := info]"
  "infos (lapack_call L (Query (Info_slot k)) info st) = (infos st)[k := info]"
  by (simp_all add: lapack_call_def)

lemma lapack_call_infos_local:
  "infos (lapack_call L (Factor i ws Info_local) info st) = infos st"
  "infos (lapack_call L (Query Info_local) info st) = infos st"
  by (simp_all add: lapack_call_def)

lemma init_simps: "mem (init m xs) = m" "infos (init m xs) = xs" "trace (init m xs) = []"
  by (simp_all add: init_def)

lemma query_state:
  "infos (lapack_call L (Query (Info_slot 0)) q (init m0 xs)) = xs[0 := q]"
  "trace (lapack_call L (Query p) q (init m0 xs)) = [Query p]"
  "mem (lapack_call L (Query p) q (init m0 xs)) = effect L (Query p) m0"
  by (simp_all add: lapack_call_def init_def)

lemma sample_simps:
  "use_lapack release_build" "\<not> debug_asserts release_build"
  "use_lapack debug_build" "debug_asserts debug_build"
  "query_info (sample_lapack q h s) = q" "query_work (sample_lapack q h s) = h"
  "query_rwork (sample_lapack q h s) = 0" "query_iwork (sample_lapack q h s) = 1"
  "status (sample_lapack q h s) = s" "effect (sample_lapack q h s) ev m = m"
  by (simp_all add: release_build_def debug_build_def sample_lapack_def)

lemma batchCount_3: "batchCount [a, b, c] = a" "numel [a, b, c] = a * b * c"
  "size_neg [a, b, c] 1 = c" "size_neg [a, b, c] 2 = b" "matrixStride [a, b, c] = c * b"
  by (simp_all add: batchCount_def numel_def size_neg_def matrixStride_def)

lemma size_neg_Suc0: "size_neg [a, b, c] (Suc 0) = c"
  by (simp add: size_neg_def)

lemma numel_batch_zero:
  assumes "batchCount sizes = 0"
  shows "numel sizes = 0"
proof -
  have "prod_list sizes = prod_list (take (length sizes - 2) sizes) * prod_list (drop (length sizes - 2) sizes)"
    by (metis append_take_drop_id prod_list.append)
  with assms show ?thesis by (simp add: numel_def batchCount_def)
qed

lemma square_stride:
  assumes "size_neg shp 1 = size_neg shp 2"
  shows "matrixStride shp = size_neg shp 2 * max 1 (size_neg shp 2)"
  using assms by (cases "size_neg shp 2 = 0") (simp_all add: matrixStride_def max_def)

lemma frame_sample: "frame (sample_lapack q h s) S"
  by (simp add: frame_def sample_simps)

lemma to_int_max: "max 1 (to_int x) = max 1 \<lfloor>x\<rfloor>"
proof (cases "0 \<le> x")
  case True
  then show ?thesis by (simp add: to_int_def)
next
  case False
  then have "\<lceil>x\<rceil> \<le> 0" "\<lfloor>x\<rfloor> \<le> 0" by (simp_all add: ceiling_le_iff floor_le_iff) 
  with False show ?thesis by (simp add: to_int_def max_def)
qed

lemma narrow_int_id: "- (2 ^ 31) \<le> k \<Longrightarrow> k < 2 ^ 31 \<Longrightarrow> narrow_int k = k"
  by (simp add: narrow_int_def)

lemma max_shuffle: "max n (max 1 k) = max (max 1 n) (k::int)"
  by (simp add: max_def)

subsection \<open>Reading logs\<close>

lemma lworks_append: "lworks (xs @ ys) = lworks xs @ lworks ys"
  by (simp add: lworks_def)

lemma lworks_Cons: "lworks (e # tr) = factor_lwork e @ lworks tr"
  by (simp add: lworks_def)

lemma lworks_map: "lworks (map (\<lambda>i. Factor i (w # ws) (p i)) xs) = replicate (length xs) w"
  by (induction xs) (simp_all add: lworks_def)

lemma lworks_map_nil: "lworks (map (\<lambda>i. Factor i [] (p i)) xs) = []"
  by (induction xs) (simp_all add: lworks_def)

lemma factor_indices_append: "factor_indices (xs @ ys) = factor_indices xs @ factor_indices ys"
  by (simp add: factor_indices_def)

lemma factor_indices_Cons: "factor_indices (e # tr) = factor_index e @ factor_indices tr"
  by (simp add: factor_indices_def)

lemma factor_indices_map: "factor_indices (map (\<lambda>i. Factor i ws (p i)) xs) = xs"
  by (induction xs) (simp_all add: factor_indices_def)

lemma step_slots_append: "step_slots (xs @ ys) = step_slots xs @ step_slots ys"
  by (simp add: step_slots_def)

lemma step_slots_map: "step_slots (map (\<lambda>i. Factor i ws (Info_slot i)) xs) = xs"
  by (induction xs) (simp_all add: step_slots_def)

lemma slot_writers_append: "slot_writers k (xs @ ys) = slot_writers k xs @ slot_writers k ys"
  by (simp add: slot_writers_def)

lemma slot_writers_Cons:
  "slot_writers k (e # tr) = (if info_dest e = Info_slot k then [e] else []) @ slot_writers k tr"
  by (simp add: slot_writers_def)

lemma slot_writers_map:
  "slot_writers k (map (\<lambda>i. Factor i ws (Info_slot i)) [a..<b])
     = (if a \<le> k \<and> k < b then [Factor k ws (Info_slot k)] else [])"
proof (induction b)
  case 0
  show ?case by (simp add: slot_writers_def)
next
  case (Suc b)
  show ?case
  proof (cases "a \<le> b")
    case True
    then show ?thesis using Suc.IH by (auto simp: slot_writers_append) (simp_all add: slot_writers_def)
  next
    case False
    then show ?thesis by (simp add: slot_writers_def)
  qed
qed

lemma no_factor_in_query: "factor_indices [Query p] = []" "factor_indices [] = []"
  by (simp_all add: factor_indices_def)

lemma no_lwork_in_query: "lworks [Query p] = []" "lworks [] = []"
  by (simp_all add: lworks_def)

lemma no_step_in_query: "step_slots [Query p] = []" "step_slots [] = []"
  by (simp_all add: step_slots_def)

subsection \<open>The loops\<close>

lemma slot_steps_empty: "b \<le> a \<Longrightarrow> slot_steps L ws a b st = st"
  by (simp add: slot_steps_def)

lemma slot_steps_Suc:
  "a \<le> b \<Longrightarrow> slot_steps L ws a (Suc b) st
     = lapack_call L (Factor b ws (Info_slot b)) (status L b) (slot_steps L ws a b st)"
  by (simp add: slot_steps_def)

lemma slot_steps_first:
  "a < b \<Longrightarrow> slot_steps L ws a b st
     = slot_steps L ws (Suc a) b (lapack_call L (Factor a ws (Info_slot a)) (status L a) st)"
  by (simp add: slot_steps_def upt_conv_Cons)

lemma slot_steps_trace:
  "trace (slot_steps L ws a b st) = trace st @ map (\<lambda>i. Factor i ws (Info_slot i)) [a..<b]"
proof (induction b)
  case 0
  show ?case by (simp add: slot_steps_def)
next
  case (Suc b)
  show ?case
  proof (cases "a \<le> b")
    case True
    then show ?thesis by (simp add: slot_steps_Suc lapack_call_trace Suc.IH)
  next
    case False
    then show ?thesis by (simp add: slot_steps_empty)
  qed
qed

lemma slot_steps_length: "length (infos (slot_steps L ws a b st)) = length (infos st)"
proof (induction b)
  case 0
  show ?case by (simp add: slot_steps_def)
next
  case (Suc b)
  show ?case
  proof (cases "a \<le> b")
    case True
    then show ?thesis by (simp add: slot_steps_Suc lapack_call_infos_slot Suc.IH)
  next
    case False
    then show ?thesis by (simp add: slot_steps_empty)
  qed
qed

lemma slot_steps_nth:
  "p < length (infos st) \<Longrightarrow>
     infos (slot_steps L ws a b st) ! p = (if a \<le> p \<and> p < b then status L p else infos st ! p)"
proof (induction b)
  case 0
  then show ?case by (simp add: slot_steps_def)
next
  case (Suc b)
  show ?case
  proof (cases "a \<le> b")
    case True
    have len: "p < length (infos (slot_steps L ws a b st))"
      using Suc.prems by (simp add: slot_steps_length)
    show ?thesis
    proof (cases "p = b")
      case True
      with \<open>a \<le> b\<close> len show ?thesis
        by (simp add: slot_steps_Suc lapack_call_infos_slot)
    next
      case False
      with \<open>a \<le> b\<close> len Suc show ?thesis
        by (auto simp: slot_steps_Suc lapack_call_infos_slot)
    qed
  next
    case False
    then show ?thesis by (simp add: slot_steps_empty)
  qed
qed

lemma local_steps_trace:
  "trace (local_steps L lwork a b st) = trace st @ map (\<lambda>i. Factor i [lwork] Info_local) [a..<b]"
proof (induction b)
  case 0
  show ?case by (simp add: local_steps_def)
next
  case (Suc b)
  show ?case
  proof (cases "a \<le> b")
    case True
    then show ?thesis using Suc.IH by (simp add: local_steps_def lapack_call_trace)
  next
    case False
    then show ?thesis by (simp add: local_steps_def)
  qed
qed

lemma n_processed_ok:
  assumes "\<forall>j<b. st j = 0"
  shows "n_processed st b = b"
proof -
  have "find (\<lambda>i. st i \<noteq> 0) [0..<b] = None"
    using assms by (simp add: find_None_iff)
  then show ?thesis by (simp add: n_processed_def)
qed

lemma n_processed_fail:
  assumes "f < b" "\<forall>j<f. st j = 0" "st f \<noteq> 0"
  shows "n_processed st b = Suc f"
proof (cases "find (\<lambda>i. st i \<noteq> 0) [0..<b]")
  case None
  then show ?thesis using assms by (auto simp: find_None_iff)
next
  case (Some g)
  then obtain k where k: "k < b" "st ([0..<b] ! k) \<noteq> 0" "g = [0..<b] ! k"
      "\<forall>j<k. \<not> st ([0..<b] ! j) \<noteq> 0"
    by (auto simp: find_Some_iff)
  then have "g = k" by simp
  have "\<not> k < f" using k assms by auto
  moreover have "\<not> f < k" using k assms by auto
  ultimately have "k = f" by simp
  with Some \<open>g = k\<close> show ?thesis by (simp add: n_processed_def)
qed

lemma n_processed_cases:
  obtains (ok) "\<forall>j<b. st j = 0" "n_processed st b = b"
  | (fail) f where "f < b" "\<forall>j<f. st j = 0" "st f \<noteq> 0" "n_processed st b = Suc f"
proof (cases "\<forall>j<b. st j = 0")
  case True
  then show ?thesis using ok n_processed_ok by blast
next
  case False
  define f where "f = (LEAST j. j < b \<and> st j \<noteq> 0)"
  from False have ex: "\<exists>j. j < b \<and> st j \<noteq> 0" by auto
  then have "f < b \<and> st f \<noteq> 0" unfolding f_def by (rule LeastI_ex)
  moreover have "\<forall>j<f. st j = 0"
  proof (intro allI impI)
    fix j assume "j < f"
    then have "\<not> (j < b \<and> st j \<noteq> 0)" unfolding f_def by (rule not_less_Least)
    moreover have "j < b" using \<open>j < f\<close> \<open>f < b \<and> st f \<noteq> 0\<close> by simp
    ultimately show "st j = 0" by simp
  qed
  ultimately show ?thesis using fail n_processed_fail by blast
qed

lemma n_processed_le: "n_processed st b \<le> b"
  by (rule n_processed_cases[of b st]) auto

lemma early_exit_empty: "early_exit_loop L ws 0 i st = st"
  by (subst early_exit_loop.simps) simp

lemma early_exit_fail:
  assumes "i \<le> f" "f < b" "b \<le> length (infos st)"
    and "\<forall>j. i \<le> j \<and> j < f \<longrightarrow> status L j = 0" and "status L f \<noteq> 0"
  shows "early_exit_loop L ws b i st = slot_steps L ws i (Suc f) st"
  using assms
proof (induction "f - i" arbitrary: i st)
  case 0
  then have "i = f" by simp
  with 0 show ?case
    by (subst early_exit_loop.simps)
       (simp add: slot_steps_first slot_steps_empty lapack_call_infos_slot)
next
  case (Suc d)
  then have lt: "i < f" and z: "status L i = 0" by auto
  let ?st = "lapack_call L (Factor i ws (Info_slot i)) (status L i) st"
  have "early_exit_loop L ws b (Suc i) ?st = slot_steps L ws (Suc i) (Suc f) ?st"
    using Suc.prems Suc.hyps(2) lt by (intro Suc.hyps(1)) (auto simp: lapack_call_infos_slot)
  moreover have "early_exit_loop L ws b i st = early_exit_loop L ws b (Suc i) ?st"
    using lt z Suc.prems by (subst early_exit_loop.simps) (simp add: lapack_call_infos_slot)
  ultimately show ?case using lt by (simp add: slot_steps_first)
qed

lemma early_exit_ok:
  assumes "b \<le> length (infos st)" and "\<forall>j. i \<le> j \<and> j < b \<longrightarrow> status L j = 0"
  shows "early_exit_loop L ws b i st = slot_steps L ws i b st"
  using assms
proof (induction "b - i" arbitrary: i st)
  case 0
  then show ?case by (subst early_exit_loop.simps) (simp add: slot_steps_empty)
next
  case (Suc d)
  then have lt: "i < b" and z: "status L i = 0" by auto
  let ?st = "lapack_call L (Factor i ws (Info_slot i)) (status L i) st"
  have "early_exit_loop L ws b (Suc i) ?st = slot_steps L ws (Suc i) b ?st"
    using Suc.prems Suc.hyps(2) lt by (intro Suc.hyps(1)) (auto simp: lapack_call_infos_slot)
  moreover have "early_exit_loop L ws b i st = early_exit_loop L ws b (Suc i) ?st"
    using lt z Suc.prems by (subst early_exit_loop.simps) (simp add: lapack_call_infos_slot)
  ultimately show ?case using lt by (simp add: slot_steps_first)
qed

lemma early_exit_processed:
  assumes "b \<le> length (infos st)"
  shows "early_exit_loop L ws b 0 st = slot_steps L ws 0 (n_processed (status L) b) st"
proof (rule n_processed_cases[of b "status L"])
  assume "\<forall>j<b. status L j = 0" "n_processed (status L) b = b"
  then show ?thesis using early_exit_ok[OF assms, of 0 L ws] by simp
next
  fix f assume "f < b" "\<forall>j<f. status L j = 0" "status L f \<noteq> 0" "n_processed (status L) b = Suc f"
  then show ?thesis using early_exit_fail[of 0 f b st L ws] assms by simp
qed

lemma early_exit_lworks:
  "set (lworks (trace (early_exit_loop L ws b i st))) \<subseteq> set (lworks (trace st)) \<union> set (take 1 ws)"
proof (induction L ws b i st rule: early_exit_loop.induct)
  case (1 L ws b i st)
  let ?st = "lapack_call L (Factor i ws (Info_slot i)) (status L i) st"
  have tr: "lworks (trace ?st) = lworks (trace st) @ take 1 ws"
    by (simp add: lapack_call_trace lworks_append) (simp add: lworks_def)
  show ?case
  proof (cases "i < b")
    case False
    then show ?thesis by (subst early_exit_loop.simps) auto
  next
    case True
    show ?thesis
    proof (cases "infos ?st ! i \<noteq> 0")
      case True
      with \<open>i < b\<close> tr show ?thesis by (subst early_exit_loop.simps) (auto simp: Let_def)
    next
      case False
      from 1[OF \<open>i < b\<close> refl False] have
        "set (lworks (trace (early_exit_loop L ws b (i + 1) ?st)))
           \<subseteq> set (lworks (trace ?st)) \<union> set (take 1 ws)" .
      moreover have "early_exit_loop L ws b i st = early_exit_loop L ws b (i + 1) ?st"
        using \<open>i < b\<close> False by (subst early_exit_loop.simps) (auto simp: Let_def)
      ultimately show ?thesis using tr by auto
    qed
  qed
qed

lemma assert_loop_empty: "assert_loop cfg L lwork 0 i st = Returned st"
  by (subst assert_loop.simps) simp

lemma assert_loop_release:
  assumes "\<not> debug_asserts cfg"
  shows "assert_loop cfg L lwork b i st = Returned (local_steps L lwork i b st)"
proof (induction "b - i" arbitrary: i st)
  case 0
  then show ?case by (subst assert_loop.simps) (simp add: local_steps_def)
next
  case (Suc d)
  then have lt: "i < b" by simp
  let ?st = "lapack_call L (Factor i [lwork] Info_local) (status L i) st"
  have "assert_loop cfg L lwork b (Suc i) ?st = Returned (local_steps L lwork (Suc i) b ?st)"
    using Suc.hyps(2) by (intro Suc.hyps(1)) simp
  moreover have "assert_loop cfg L lwork b i st = assert_loop cfg L lwork b (Suc i) ?st"
    using lt assms by (subst assert_loop.simps) simp
  ultimately show ?case using lt by (simp add: local_steps_def upt_conv_Cons)
qed

lemma assert_loop_lworks:
  "set (lworks (trace (final (assert_loop cfg L lwork b i st)))) \<subseteq> set (lworks (trace st)) \<union> {lwork}"
proof (induction cfg L lwork b i st rule: assert_loop.induct)
  case (1 cfg L lwork b i st)
  let ?st = "lapack_call L (Factor i [lwork] Info_local) (status L i) st"
  have tr: "lworks (trace ?st) = lworks (trace st) @ [lwork]"
    by (simp add: lapack_call_trace lworks_append) (simp add: lworks_def)
  show ?case
  proof (cases "i < b")
    case False
    then show ?thesis by (subst assert_loop.simps) auto
  next
    case True
    show ?thesis
    proof (cases "debug_asserts cfg \<and> status L i \<noteq> 0")
      case True
      with \<open>i < b\<close> tr show ?thesis by (subst assert_loop.simps) (auto simp: Let_def)
    next
      case False
      from 1[OF \<open>i < b\<close> refl False] have
        "set (lworks (trace (final (assert_loop cfg L lwork b (i + 1) ?st))))
           \<subseteq> set (lworks (trace ?st)) \<union> {lwork}" .
      moreover have "assert_loop cfg L lwork b i st = assert_loop cfg L lwork b (i + 1) ?st"
        using \<open>i < b\<close> False by (subst assert_loop.simps) (auto simp: Let_def)
      ultimately show ?thesis using tr by auto
    qed
  qed
qed

lemma assert_loop_raised:
  "raised (assert_loop cfg L lwork b i st) = Some e \<Longrightarrow> debug_asserts cfg \<and> e = Internal_assert"
proof (induction cfg L lwork b i st rule: assert_loop.induct)
  case (1 cfg L lwork b i st)
  show ?case
  proof (cases "debug_asserts cfg")
    case False
    with "1.prems" show ?thesis by (simp add: assert_loop_release)
  next
    case dbg: True
    let ?st = "lapack_call L (Factor i [lwork] Info_local) (status L i) st"
    show ?thesis
    proof (cases "i < b")
      case False
      with "1.prems" show ?thesis by (subst (asm) assert_loop.simps) simp
    next
      case True
      show ?thesis
      proof (cases "status L i \<noteq> 0")
        case True
        with \<open>i < b\<close> dbg "1.prems" show ?thesis
          by (subst (asm) assert_loop.simps) (simp add: Let_def)
      next
        case False
        then have nf: "\<not> (debug_asserts cfg \<and> status L i \<noteq> 0)" by simp
        have "assert_loop cfg L lwork b i st = assert_loop cfg L lwork b (i + 1) ?st"
          using \<open>i < b\<close> False by (subst assert_loop.simps) (auto simp: Let_def)
        with "1.prems" 1(1)[OF \<open>i < b\<close> refl nf] show ?thesis by simp
      qed
    qed
  qed
qed

subsection \<open>The runs of the kernels, written out\<close>

lemma eig_run:
  assumes "use_lapack cfg"
  shows "apply_linalg_eig cfg L input m0 xs
     = Returned (slot_steps L [eig_lwork L] 0 (batchCount input)
         (lapack_call L (Query (Info_slot 0)) (query_info L) (init m0 xs)))"
  using assms by (simp add: apply_linalg_eig_def slot_steps_def eig_lwork_def Let_def)

lemma eigh_run:
  assumes "use_lapack cfg" "batchCount vectors \<le> length xs"
  shows "apply_lapack_eigh cfg L vectors cplx m0 xs
     = Returned (slot_steps L (eigh_sizes L cplx) 0 (n_processed (status L) (batchCount vectors))
         (lapack_call L (Query (Info_slot 0)) (query_info L) (init m0 xs)))"
proof -
  have "batchCount vectors \<le> length (infos (lapack_call L (Query (Info_slot 0)) (query_info L) (init m0 xs)))"
    using assms(2) by (simp add: lapack_call_infos_slot init_simps)
  from early_exit_processed[OF this] assms(1) show ?thesis
    by (simp add: apply_lapack_eigh_def eigh_sizes_def Let_def)
qed

lemma trsm_run:
  assumes "use_lapack cfg" "batchCount A \<le> length xs"
  shows "apply_triangular_solve cfg L A m0 xs
     = Returned (slot_steps L [] 0 (n_processed (status L) (batchCount A)) (init m0 xs))"
proof -
  have "batchCount A \<le> length (infos (init m0 xs))" using assms(2) by (simp add: init_simps)
  from early_exit_processed[OF this] assms(1) show ?thesis
    by (simp add: apply_triangular_solve_def)
qed

lemma geqrf_release_run:
  assumes "use_lapack cfg" "\<not> debug_asserts cfg"
  shows "apply_geqrf cfg L shp m n m0
     = Returned (local_steps L (max (max 1 (narrow_int n)) (to_int (real_impl (query_work L))))
         0 (batchCount shp) (lapack_call L (Query Info_local) (query_info L) (init m0 [])))"
  using assms by (simp add: apply_geqrf_def Let_def assert_loop_release)

lemma orgqr_release_run:
  assumes "use_lapack cfg" "\<not> debug_asserts cfg"
    and "numel self \<noteq> 0" "n_columns \<le> size_neg self 2" "size_neg tau 1 \<le> n_columns"
  shows "apply_orgqr cfg L self tau n_columns m0
     = Returned (local_steps L (max 1 (to_int (real_impl (query_work L))))
         0 (batchCount self) (lapack_call L (Query Info_local) (query_info L) (init m0 [])))"
  using assms by (simp add: apply_orgqr_def Let_def assert_loop_release)

lemma slot_run_stopped:
  assumes "f < b" "\<forall>j<f. status L j = 0" "status L f \<noteq> 0" "b \<le> length xs"
    and "infos st = xs[0 := q] \<or> infos st = xs"
    and "factor_indices (trace st) = []" "step_slots (trace st) = []"
  shows "stopped_at (status L) xs f (Returned (slot_steps L ws 0 (n_processed (status L) b) st))"
proof -
  have p: "n_processed (status L) b = Suc f" using assms(1-3) by (rule n_processed_fail)
  have len: "length (infos st) = length xs" using assms(5) by auto
  have nth: "infos (slot_steps L ws 0 (Suc f) st) ! j = (if j < Suc f then status L j else infos st ! j)"
    if "j < length xs" for j
    using slot_steps_nth[of j st L ws 0 "Suc f"] that len by simp
  have a: "\<forall>j<f. infos (slot_steps L ws 0 (Suc f) st) ! j = 0"
    using nth assms(1,2,4) by simp
  have b: "infos (slot_steps L ws 0 (Suc f) st) ! f = status L f"
    using nth[of f] assms(1,4) by simp
  have c: "\<forall>j. f < j \<and> j < length xs \<longrightarrow> infos (slot_steps L ws 0 (Suc f) st) ! j = xs ! j"
    using nth assms(5) by auto
  show ?thesis
    unfolding stopped_at_def p using a b c len assms(6,7)
    by (simp add: slot_steps_length slot_steps_trace factor_indices_append factor_indices_map
        step_slots_append step_slots_map del: upt_Suc)
qed

lemma slot_run_completed:
  assumes "\<forall>j<b. status L j = 0" "b \<le> length xs"
    and "length (infos st) = length xs"
    and "factor_indices (trace st) = []" "step_slots (trace st) = []"
  shows "completed b xs (Returned (slot_steps L ws 0 (n_processed (status L) b) st))"
proof -
  have p: "n_processed (status L) b = b" using assms(1) by (rule n_processed_ok)
  have "\<forall>j<b. infos (slot_steps L ws 0 b st) ! j = 0"
    using slot_steps_nth[of _ st L ws 0 b] assms(1,2,3) by simp
  then show ?thesis
    unfolding completed_def p using assms(3,4,5)
    by (simp add: slot_steps_length slot_steps_trace factor_indices_append factor_indices_map
        step_slots_append step_slots_map)
qed

subsection \<open>The run of \<^verbatim>\<open>apply_cholesky_inverse\<close>\<close>

lemma chol_events_Suc: "chol_events (Suc b) = chol_events b @ [Factor b [] (Info_slot b), Reflect b]"
  by (simp add: chol_events_def)

lemma cholesky_step_trace:
  "trace (cholesky_step L chunks S n lda upper i st) = trace st @ [Factor i [] (Info_slot i), Reflect i]"
  by (simp add: cholesky_step_def reflect_call_def lapack_call_def)

lemma cholesky_step_infos:
  "infos (cholesky_step L chunks S n lda upper i st) = (infos st)[i := status L i]"
  by (simp add: cholesky_step_def reflect_call_def lapack_call_def)

lemma cholesky_step_mem:
  "mem (cholesky_step L chunks S n lda upper i st)
     = apply_reflect_conj_tri_single (chunks i) (effect L (Factor i [] (Info_slot i)) (mem st))
         (i * S) n lda upper"
  by (simp add: cholesky_step_def reflect_call_def lapack_call_def)

lemma cholesky_fold_trace:
  "trace (fold (cholesky_step L chunks S n lda upper) [0..<b] st) = trace st @ chol_events b"
  by (induction b) (simp_all add: chol_events_Suc cholesky_step_trace, simp add: chol_events_def)

lemma cholesky_fold_length:
  "length (infos (fold (cholesky_step L chunks S n lda upper) [0..<b] st)) = length (infos st)"
  by (induction b) (simp_all add: cholesky_step_infos)

lemma cholesky_fold_nth:
  "p < length (infos st) \<Longrightarrow>
     infos (fold (cholesky_step L chunks S n lda upper) [0..<b] st) ! p
       = (if p < b then status L p else infos st ! p)"
proof (induction b)
  case 0
  then show ?case by simp
next
  case (Suc b)
  have len: "p < length (infos (fold (cholesky_step L chunks S n lda upper) [0..<b] st))"
    using Suc.prems by (simp add: cholesky_fold_length)
  show ?case
  proof (cases "p = b")
    case True
    with len show ?thesis by (simp add: cholesky_step_infos)
  next
    case False
    with len Suc show ?thesis by (auto simp: cholesky_step_infos)
  qed
qed

lemma slot_writers_chol:
  "slot_writers k (chol_events b) = (if k < b then [Factor k [] (Info_slot k)] else [])"
proof (induction b)
  case 0
  show ?case by (simp add: chol_events_def slot_writers_def)
next
  case (Suc b)
  have "slot_writers k [Factor b [] (Info_slot b), Reflect b]
      = (if k = b then [Factor k [] (Info_slot k)] else [])"
    by (auto simp: slot_writers_def)
  with Suc show ?case by (auto simp: chol_events_Suc slot_writers_append)
qed

lemma cholesky_run:
  assumes "use_lapack cfg"
  shows "apply_cholesky_inverse cfg L chunks shp upper dat xs
     = Returned (fold (cholesky_step L chunks (matrixStride shp) (size_neg shp 2)
                   (max 1 (size_neg shp 2)) upper) [0..<batchCount shp] (init dat xs))"
  using assms by (simp add: apply_cholesky_inverse_def Let_def)

lemma apply_reflect_length:
  assumes "n \<le> stride" "holds_matrix buf self n stride" "256 \<le> n \<longrightarrow> covers 0 n chunks"
  shows "length (apply_reflect_conj_tri_single chunks buf self n stride upper) = length buf"
  unfolding apply_reflect_as_pairs[OF assms]
  by (rule reflect_pairs_length[OF assms(1,2) tri_pairs_valid])

lemma apply_reflect_dst:
  assumes "n \<le> stride" "holds_matrix buf self n stride" "256 \<le> n \<longrightarrow> covers 0 n chunks"
    and "in_tri upper n i j"
  shows "apply_reflect_conj_tri_single chunks buf self n stride upper ! (self + (i * stride + j))
       = conj_impl (buf ! (self + (j * stride + i)))"
  unfolding apply_reflect_as_pairs[OF assms(1,2,3)]
  using assms(4) by (intro reflect_pairs_dst[OF assms(1,2) tri_pairs_valid]) (simp add: mem_tri_pairs)

lemma apply_reflect_other:
  assumes "n \<le> stride" "holds_matrix buf self n stride" "256 \<le> n \<longrightarrow> covers 0 n chunks"
    and "\<And>i j. in_tri upper n i j \<Longrightarrow> p \<noteq> self + (i * stride + j)"
  shows "apply_reflect_conj_tri_single chunks buf self n stride upper ! p = buf ! p"
  unfolding apply_reflect_as_pairs[OF assms(1,2,3)]
  using assms(4) by (intro reflect_pairs_other[OF assms(1,2) tri_pairs_valid]) (simp add: mem_tri_pairs)

lemma apply_reflect_outside:
  assumes "n \<le> stride" "holds_matrix buf self n stride" "256 \<le> n \<longrightarrow> covers 0 n chunks"
    and "p < self \<or> self + n * stride \<le> p"
  shows "apply_reflect_conj_tri_single chunks buf self n stride upper ! p = buf ! p"
proof (rule apply_reflect_other[OF assms(1,2,3)])
  fix i j assume "in_tri upper n i j"
  then have "i < n" "j < n" using in_tri_bounds by blast+
  from idx_lt[OF this assms(1)]
  have "self + (i * stride + j) < self + n * stride" by simp
  then show "p \<noteq> self + (i * stride + j)" using assms(4) by auto
qed

lemma apply_reflect_mirrored:
  assumes "n \<le> stride" "holds_matrix buf self n stride" "256 \<le> n \<longrightarrow> covers 0 n chunks"
  shows "mirrored upper (apply_reflect_conj_tri_single chunks buf self n stride upper) self n stride"
  unfolding mirrored_def elem_def
proof (intro allI impI)
  fix i j assume tri: "in_tri upper n i j"
  have "apply_reflect_conj_tri_single chunks buf self n stride upper ! (self + (j * stride + i))
      = buf ! (self + (j * stride + i))"
    using src_not_dst[OF tri _ assms(1)] by (intro apply_reflect_other[OF assms]) auto
  then show "apply_reflect_conj_tri_single chunks buf self n stride upper ! (self + (i * stride + j))
      = conj_impl (apply_reflect_conj_tri_single chunks buf self n stride upper ! (self + (j * stride + i)))"
    by (simp add: apply_reflect_dst[OF assms tri])
qed

lemma mirrored_cong:
  assumes "mirrored upper buf self n stride" "n \<le> stride"
    and "\<And>p. self \<le> p \<Longrightarrow> p < self + n * stride \<Longrightarrow> buf' ! p = buf ! p"
  shows "mirrored upper buf' self n stride"
  unfolding mirrored_def elem_def
proof (intro allI impI)
  fix i j assume tri: "in_tri upper n i j"
  then have b: "i < n" "j < n" using in_tri_bounds by blast+
  have 1: "self + (i * stride + j) < self + n * stride"
    using idx_lt[OF b assms(2)] by simp
  have 2: "self + (j * stride + i) < self + n * stride"
    using idx_lt[OF b(2,1) assms(2)] by simp
  from assms(1) tri have "buf ! (self + (i * stride + j)) = conj_impl (buf ! (self + (j * stride + i)))"
    by (simp add: mirrored_def elem_def)
  then show "buf' ! (self + (i * stride + j)) = conj_impl (buf' ! (self + (j * stride + i)))"
    using assms(3)[of "self + (i * stride + j)"] assms(3)[of "self + (j * stride + i)"] 1 2 by simp
qed

lemma cholesky_fold_mem:
  assumes fr: "frame L (n * lda)" and lda: "n \<le> lda"
    and cov: "\<forall>i. 256 \<le> n \<longrightarrow> covers 0 n (chunks i)"
    and len: "b * (n * lda) \<le> length (mem st)"
  shows "k \<le> b \<Longrightarrow>
      length (mem (fold (cholesky_step L chunks (n * lda) n lda upper) [0..<k] st)) = length (mem st)
    \<and> (\<forall>i<k. mirrored upper (mem (fold (cholesky_step L chunks (n * lda) n lda upper) [0..<k] st))
                (i * (n * lda)) n lda)"
proof (induction k)
  case 0
  show ?case by simp
next
  case (Suc k)
  let ?S = "n * lda"
  let ?st = "fold (cholesky_step L chunks ?S n lda upper) [0..<k] st"
  let ?m1 = "effect L (Factor k [] (Info_slot k)) (mem ?st)"
  let ?m2 = "apply_reflect_conj_tri_single (chunks k) ?m1 (k * ?S) n lda upper"
  from Suc have IH: "length (mem ?st) = length (mem st)"
      "\<And>i. i < k \<Longrightarrow> mirrored upper (mem ?st) (i * ?S) n lda"
    by auto
  have m1_len: "length ?m1 = length (mem st)" using fr IH(1) by (simp add: frame_def)
  have m1_out: "\<And>p. p < k * ?S \<or> (k + 1) * ?S \<le> p \<Longrightarrow> ?m1 ! p = mem ?st ! p"
    using fr unfolding frame_def by blast
  have "Suc k * ?S \<le> b * ?S" using Suc.prems by (intro mult_le_mono1) simp
  then have "k * ?S + n * lda \<le> length ?m1" using len m1_len by simp
  then have fits: "holds_matrix ?m1 (k * ?S) n lda" by (rule holds_matrixI[OF lda])
  have c: "256 \<le> n \<longrightarrow> covers 0 n (chunks k)" using cov by simp
  have step: "mem (fold (cholesky_step L chunks ?S n lda upper) [0..<Suc k] st) = ?m2"
    by (simp add: cholesky_step_mem)
  have m2_len: "length ?m2 = length (mem st)"
    using apply_reflect_length[OF lda fits c] m1_len by simp
  have m2_out: "\<And>p. p < k * ?S \<or> k * ?S + n * lda \<le> p \<Longrightarrow> ?m2 ! p = ?m1 ! p"
    by (rule apply_reflect_outside[OF lda fits c])
  have "mirrored upper ?m2 (i * ?S) n lda" if "i < Suc k" for i
  proof (cases "i = k")
    case True
    then show ?thesis using apply_reflect_mirrored[OF lda fits c] by simp
  next
    case False
    then have ik: "i < k" using that by simp
    then have "Suc i * ?S \<le> k * ?S" by (intro mult_le_mono1) simp
    then have below: "i * ?S + n * lda \<le> k * ?S" by simp
    show ?thesis
    proof (rule mirrored_cong[OF IH(2)[OF ik] lda])
      fix p assume "i * ?S \<le> p" "p < i * ?S + n * lda"
      then have "p < k * ?S" using below by simp
      then show "?m2 ! p = mem ?st ! p" using m2_out[of p] m1_out[of p] by simp
    qed
  qed
  then show ?case using m2_len unfolding step by simp
qed

subsection \<open>The workspace sizing query\<close>

text \<open>
  C2, as stated, fails: with batch size 0 \<^verbatim>\<open>apply_geqrf\<close> and \<^verbatim>\<open>apply_linalg_eig\<close> still
  call the routine once with the size-query flag.
\<close>

theorem size_query_at_batch_zero:
  "batchCount [0, 2, 2] = 0
   \<and> apply_geqrf release_build (sample_lapack 0 (Real_val 2) (\<lambda>i. 0)) [0, 2, 2] 2 2 ()
      = Returned \<lparr>mem = (), infos = [], trace = [Query Info_local]\<rparr>
   \<and> apply_linalg_eig release_build (sample_lapack 0 (Real_val 2) (\<lambda>i. 0)) [0, 2, 2] () [5]
      = Returned \<lparr>mem = (), infos = [0], trace = [Query (Info_slot 0)]\<rparr>"
  by (simp add: apply_geqrf_def apply_linalg_eig_def sample_simps batchCount_3 assert_loop_empty
      lapack_call_def init_def)

text \<open>
  C2, amended. With batch size 0, \<^verbatim>\<open>apply_orgqr\<close> returns at once without a size query.
  \<^verbatim>\<open>apply_linalg_eig\<close>, \<^verbatim>\<open>apply_lapack_eigh\<close> and \<^verbatim>\<open>apply_geqrf\<close> make the size query once
  and no per-matrix call; the first two store the query's status in slot 0 of the status
  vector (which must have that slot) and return; \<^verbatim>\<open>apply_geqrf\<close> returns unless the
  build has debug assertions and the query reports a nonzero status.
\<close>

theorem batch_zero_runs:
  assumes "use_lapack cfg" "batchCount shp = 0" "xs \<noteq> []"
  shows "apply_orgqr cfg L shp tau n_columns m0 = Returned \<lparr>mem = m0, infos = [], trace = []\<rparr>
    \<and> apply_linalg_eig cfg L shp m0 xs
        = Returned \<lparr>mem = effect L (Query (Info_slot 0)) m0, infos = xs[0 := query_info L],
                    trace = [Query (Info_slot 0)]\<rparr>
    \<and> apply_lapack_eigh cfg L shp cplx m0 xs
        = Returned \<lparr>mem = effect L (Query (Info_slot 0)) m0, infos = xs[0 := query_info L],
                    trace = [Query (Info_slot 0)]\<rparr>
    \<and> apply_geqrf cfg L shp m n m0
        = (if debug_asserts cfg \<and> query_info L \<noteq> 0
           then Raised Internal_assert \<lparr>mem = effect L (Query Info_local) m0, infos = [], trace = [Query Info_local]\<rparr>
           else Returned \<lparr>mem = effect L (Query Info_local) m0, infos = [], trace = [Query Info_local]\<rparr>)"
proof (intro conjI)
  show "apply_orgqr cfg L shp tau n_columns m0 = Returned \<lparr>mem = m0, infos = [], trace = []\<rparr>"
    using assms numel_batch_zero[OF assms(2)] by (simp add: apply_orgqr_def init_def)
  show "apply_linalg_eig cfg L shp m0 xs
        = Returned \<lparr>mem = effect L (Query (Info_slot 0)) m0, infos = xs[0 := query_info L],
                    trace = [Query (Info_slot 0)]\<rparr>"
    using assms by (simp add: apply_linalg_eig_def lapack_call_def init_def)
  show "apply_lapack_eigh cfg L shp cplx m0 xs
        = Returned \<lparr>mem = effect L (Query (Info_slot 0)) m0, infos = xs[0 := query_info L],
                    trace = [Query (Info_slot 0)]\<rparr>"
    using assms by (simp add: apply_lapack_eigh_def early_exit_empty lapack_call_def init_def)
  show "apply_geqrf cfg L shp m n m0
        = (if debug_asserts cfg \<and> query_info L \<noteq> 0
           then Raised Internal_assert \<lparr>mem = effect L (Query Info_local) m0, infos = [], trace = [Query Info_local]\<rparr>
           else Returned \<lparr>mem = effect L (Query Info_local) m0, infos = [], trace = [Query Info_local]\<rparr>)"
    using assms by (simp add: apply_geqrf_def assert_loop_empty lapack_call_def init_def Let_def)
qed

theorem batch_zero_runs_witness:
  "use_lapack release_build \<and> batchCount [0, 2, 2] = 0 \<and> [5 :: int] \<noteq> []
   \<and> apply_orgqr release_build (sample_lapack 0 (Real_val 2) (\<lambda>i. 0)) [0, 2, 2] [0, 2] 2 ()
       = Returned \<lparr>mem = (), infos = [], trace = []\<rparr>
   \<and> apply_lapack_eigh release_build (sample_lapack 0 (Real_val 2) (\<lambda>i. 0)) [0, 2, 2] False () [5]
       = Returned \<lparr>mem = (), infos = [0], trace = [Query (Info_slot 0)]\<rparr>"
  using batch_zero_runs[where cfg = release_build and shp = "[0, 2, 2]" and tau = "[0, 2]"
      and n_columns = 2 and ?m0.0 = "()" and xs = "[5]" and cplx = False and m = 2 and n = 2
      and L = "sample_lapack 0 (Real_val 2) (\<lambda>i. 0)"]
  by (simp add: sample_simps batchCount_3)

text \<open>
  C3, as stated, fails for \<^verbatim>\<open>apply_geqrf\<close>: with \<open>n = 5\<close> and the hint 1 (what LAPACK
  answers for a matrix without rows) the per-matrix call gets \<open>lwork = 5\<close>, not
  \<open>max(1, floor(1)) = 1\<close>.
\<close>

theorem geqrf_lwork_not_hint:
  "lworks (trace (final (apply_geqrf release_build (sample_lapack 0 (Real_val 1) (\<lambda>i. 0)) [1, 0, 5] 0 5 ())))
     = [5]
   \<and> max 1 \<lfloor>real_impl (query_work (sample_lapack 0 (Real_val 1) (\<lambda>i. 0) :: unit lapack))\<rfloor> = 1"
  by (simp add: apply_geqrf_def sample_simps batchCount_3 assert_loop.simps
      lapack_call_def init_def lworks_def narrow_int_def to_int_def)

text \<open>
  C3, amended. Every per-matrix call of \<^verbatim>\<open>apply_linalg_eig\<close>, \<^verbatim>\<open>apply_lapack_eigh\<close> and
  \<^verbatim>\<open>apply_orgqr\<close> gets the primary workspace size \<open>max(1, floor(real_part(hint)))\<close>;
  every per-matrix call of \<^verbatim>\<open>apply_geqrf\<close> gets \<open>max(1, n, floor(real_part(hint)))\<close>. This
  is for a hint and an \<open>n\<close> in the range of \<^verbatim>\<open>int\<close>, and for the two eigendecompositions
  with a status vector that has a slot for every matrix and for the query. (The source
  converts the hint by truncation, which under \<open>max(1, _)\<close> agrees with the floor.)
\<close>

theorem workspace_sizes:
  assumes "- (2 ^ 31) < real_impl (query_work L)" "real_impl (query_work L) < 2 ^ 31"
  shows "(xs \<noteq> [] \<and> batchCount shp \<le> length xs \<longrightarrow>
       (\<forall>w \<in> set (lworks (trace (final (apply_linalg_eig cfg L shp m0 xs)))).
          w = max 1 \<lfloor>real_impl (query_work L)\<rfloor>)
     \<and> (\<forall>w \<in> set (lworks (trace (final (apply_lapack_eigh cfg L shp cplx m0 xs)))).
          w = max 1 \<lfloor>real_impl (query_work L)\<rfloor>))
   \<and> (\<forall>w \<in> set (lworks (trace (final (apply_orgqr cfg L shp tau n_columns m0)))).
       w = max 1 \<lfloor>real_impl (query_work L)\<rfloor>)
   \<and> (- (2 ^ 31) \<le> n \<and> n < 2 ^ 31 \<longrightarrow>
       (\<forall>w \<in> set (lworks (trace (final (apply_geqrf cfg L shp m n m0)))).
          w = max (max 1 n) \<lfloor>real_impl (query_work L)\<rfloor>))"
proof (intro conjI impI)
  show "\<forall>w \<in> set (lworks (trace (final (apply_linalg_eig cfg L shp m0 xs)))).
       w = max 1 \<lfloor>real_impl (query_work L)\<rfloor>"
  proof (cases "use_lapack cfg")
    case True
    then show ?thesis
      by (simp add: eig_run slot_steps_trace query_state lworks_Cons lworks_map
          eig_lwork_def to_int_max)
  next
    case False
    then show ?thesis by (simp add: apply_linalg_eig_def init_simps no_lwork_in_query)
  qed
next
  show "\<forall>w \<in> set (lworks (trace (final (apply_lapack_eigh cfg L shp cplx m0 xs)))).
       w = max 1 \<lfloor>real_impl (query_work L)\<rfloor>"
  proof (cases "use_lapack cfg")
    case True
    let ?ws = "[max 1 (to_int (real_impl (query_work L))),
                (if cplx then max 1 (to_int (query_rwork L)) else - 1), max 1 (query_iwork L)]"
    let ?st1 = "lapack_call L (Query (Info_slot 0)) (query_info L) (init m0 xs)"
    have "set (lworks (trace (early_exit_loop L ?ws (batchCount shp) 0 ?st1)))
        \<subseteq> set (lworks (trace ?st1)) \<union> set (take 1 ?ws)"
      by (rule early_exit_lworks)
    then show ?thesis using True
      by (auto simp: apply_lapack_eigh_def Let_def query_state no_lwork_in_query to_int_max)
  next
    case False
    then show ?thesis by (simp add: apply_lapack_eigh_def init_simps no_lwork_in_query)
  qed
next
  let ?w = "max 1 (to_int (real_impl (query_work L)))"
  let ?st1 = "lapack_call L (Query Info_local) (query_info L) (init m0 [])"
  have sub: "set (lworks (trace (final (assert_loop cfg L ?w (batchCount shp) 0 ?st1)))) \<subseteq> {?w}"
    using assert_loop_lworks[of cfg L ?w "batchCount shp" 0 ?st1]
    by (simp add: query_state no_lwork_in_query)
  show "\<forall>w \<in> set (lworks (trace (final (apply_orgqr cfg L shp tau n_columns m0)))).
       w = max 1 \<lfloor>real_impl (query_work L)\<rfloor>"
    using sub
    by (auto simp: apply_orgqr_def Let_def init_simps query_state no_lwork_in_query to_int_max)
next
  assume n: "- (2 ^ 31) \<le> n \<and> n < 2 ^ 31"
  let ?w = "max (max 1 (narrow_int n)) (to_int (real_impl (query_work L)))"
  let ?st1 = "lapack_call L (Query Info_local) (query_info L) (init m0 [])"
  have "?w = max n (max 1 (to_int (real_impl (query_work L))))"
    using n by (simp add: narrow_int_id max_shuffle)
  also have "\<dots> = max n (max 1 \<lfloor>real_impl (query_work L)\<rfloor>)"
    by (simp only: to_int_max)
  also have "\<dots> = max (max 1 n) \<lfloor>real_impl (query_work L)\<rfloor>"
    by (rule max_shuffle)
  finally have w: "?w = max (max 1 n) \<lfloor>real_impl (query_work L)\<rfloor>" .
  have sub: "set (lworks (trace (final (assert_loop cfg L ?w (batchCount shp) 0 ?st1)))) \<subseteq> {?w}"
    using assert_loop_lworks[of cfg L ?w "batchCount shp" 0 ?st1]
    by (simp add: query_state no_lwork_in_query)
  show "\<forall>w \<in> set (lworks (trace (final (apply_geqrf cfg L shp m n m0)))).
          w = max (max 1 n) \<lfloor>real_impl (query_work L)\<rfloor>"
    using sub unfolding w[symmetric]
    by (auto simp: apply_geqrf_def Let_def init_simps query_state no_lwork_in_query)
qed

theorem workspace_sizes_witness:
  "- (2 ^ 31) < real_impl (Complex_val (Complex (7 / 2) 9))
   \<and> real_impl (Complex_val (Complex (7 / 2) 9)) < 2 ^ 31
   \<and> - (2 ^ 31) \<le> (5::int) \<and> (5::int) < 2 ^ 31
   \<and> [0, 0 :: int] \<noteq> [] \<and> batchCount [2, 2, 2] \<le> length [0, 0 :: int]
   \<and> set (lworks (trace (final (apply_geqrf release_build
          (sample_lapack 0 (Real_val 1) (\<lambda>i. 0)) [1, 0, 5] 0 5 ())))) \<subseteq> {5}
   \<and> set (lworks (trace (final (apply_linalg_eig release_build
          (sample_lapack 0 (Complex_val (Complex (7 / 2) 9)) (\<lambda>i. 0)) [2, 2, 2] () [0, 0])))) \<subseteq> {3}
   \<and> lworks (trace (final (apply_linalg_eig release_build
          (sample_lapack 0 (Complex_val (Complex (7 / 2) 9)) (\<lambda>i. 0)) [2, 2, 2] () [0, 0]))) = [3, 3]"
proof -
  let ?L1 = "sample_lapack 0 (Real_val 1) (\<lambda>i. 0) :: unit lapack"
  let ?L2 = "sample_lapack 0 (Complex_val (Complex (7 / 2) 9)) (\<lambda>i. 0) :: unit lapack"
  note w1 = workspace_sizes[where cfg = release_build and L = ?L1 and shp = "[1, 0, 5]"
      and ?m0.0 = "()" and xs = "[0]" and cplx = False and tau = "[0]" and n_columns = 0
      and n = 5 and m = 0]
  note w2 = workspace_sizes[where cfg = release_build and L = ?L2 and shp = "[2, 2, 2]"
      and ?m0.0 = "()" and xs = "[0, 0]" and cplx = False and tau = "[0]" and n_columns = 0
      and n = 5 and m = 0]
  have a: "set (lworks (trace (final (apply_geqrf release_build ?L1 [1, 0, 5] 0 5 ())))) \<subseteq> {5}"
    using w1 by (auto simp: sample_simps batchCount_3)
  have b: "set (lworks (trace (final (apply_linalg_eig release_build ?L2 [2, 2, 2] () [0, 0])))) \<subseteq> {3}"
    using w2 by (auto simp: sample_simps batchCount_3)
  have c: "lworks (trace (final (apply_linalg_eig release_build ?L2 [2, 2, 2] () [0, 0]))) = [3, 3]"
    by (simp add: apply_linalg_eig_def sample_simps batchCount_3 lapack_call_def init_def
        lworks_def to_int_def upt_rec)
  from a b c show ?thesis by (simp add: batchCount_3)
qed

subsection \<open>The status vector\<close>

text \<open>
  C4, as stated, fails in one corner: with an empty batch (\<open>b = 0\<close>, no matrix fails)
  \<^verbatim>\<open>apply_lapack_eigh\<close> still writes a status entry, slot 0, through its size query.
\<close>

theorem eigh_writes_slot_at_batch_zero:
  "batchCount [0, 2, 2] = 0
   \<and> infos (final (apply_lapack_eigh release_build (sample_lapack 0 (Real_val 4) (\<lambda>i. 0))
        [0, 2, 2] False () [9])) = [0]
   \<and> trace (final (apply_lapack_eigh release_build
        (sample_lapack 0 (Real_val 4) (\<lambda>i. 0)) [0, 2, 2] False () [9])) = [Query (Info_slot 0)]"
  by (simp add: apply_lapack_eigh_def sample_simps batchCount_3 early_exit_empty
      lapack_call_def init_def)

text \<open>
  C4, amended. Symmetric eigendecomposition and triangular solve over a batch of \<open>b\<close>
  matrices, with a status vector of at least \<open>b\<close> slots. If \<open>f\<close> is the first matrix whose
  call reports a nonzero status, the slots \<open>0..<f\<close> hold zero and slot \<open>f\<close> holds that
  status, the per-matrix calls are those of the matrices \<open>0..f\<close> and no other, and the
  slots after \<open>f\<close> hold what they held at the call. If no matrix fails, the per-matrix
  calls write exactly the \<open>b\<close> slots \<open>0..<b\<close>, once each, and these hold zero. In
  \<^verbatim>\<open>apply_lapack_eigh\<close> the size query writes slot 0 before the loop (the vector must have
  that slot), so with \<open>b = 0\<close> that slot ends with the query's status.
\<close>

theorem early_exit_status_entries:
  assumes "use_lapack cfg" "batchCount shp \<le> length xs"
  shows "(f < batchCount shp \<and> (\<forall>j<f. status L j = 0) \<and> status L f \<noteq> 0 \<longrightarrow>
            stopped_at (status L) xs f (apply_lapack_eigh cfg L shp cplx m0 xs)
          \<and> stopped_at (status L) xs f (apply_triangular_solve cfg L shp m0 xs))
       \<and> ((\<forall>j<batchCount shp. status L j = 0) \<longrightarrow>
            (xs \<noteq> [] \<longrightarrow> completed (batchCount shp) xs (apply_lapack_eigh cfg L shp cplx m0 xs))
          \<and> completed (batchCount shp) xs (apply_triangular_solve cfg L shp m0 xs))
       \<and> (batchCount shp = 0 \<and> xs \<noteq> [] \<longrightarrow>
            infos (final (apply_lapack_eigh cfg L shp cplx m0 xs)) = xs[0 := query_info L])"
proof (intro conjI impI)
  assume "batchCount shp = 0 \<and> xs \<noteq> []"
  then show "infos (final (apply_lapack_eigh cfg L shp cplx m0 xs)) = xs[0 := query_info L]"
    using assms(1) by (simp add: apply_lapack_eigh_def early_exit_empty lapack_call_def init_def)
next
  assume h: "f < batchCount shp \<and> (\<forall>j<f. status L j = 0) \<and> status L f \<noteq> 0"
  show "stopped_at (status L) xs f (apply_lapack_eigh cfg L shp cplx m0 xs)"
    unfolding eigh_run[OF assms]
    by (rule slot_run_stopped[where q = "query_info L"])
       (use h assms(2) in \<open>simp_all add: query_state no_factor_in_query no_step_in_query\<close>)
  show "stopped_at (status L) xs f (apply_triangular_solve cfg L shp m0 xs)"
    unfolding trsm_run[OF assms]
    by (rule slot_run_stopped[where q = 0])
       (use h assms(2) in \<open>simp_all add: init_simps no_factor_in_query no_step_in_query\<close>)
next
  assume h: "\<forall>j<batchCount shp. status L j = 0"
  show "completed (batchCount shp) xs (apply_lapack_eigh cfg L shp cplx m0 xs)"
    unfolding eigh_run[OF assms]
    by (rule slot_run_completed)
       (use h assms(2) in \<open>simp_all add: query_state no_factor_in_query no_step_in_query\<close>)
  show "completed (batchCount shp) xs (apply_triangular_solve cfg L shp m0 xs)"
    unfolding trsm_run[OF assms]
    by (rule slot_run_completed)
       (use h assms(2) in \<open>simp_all add: init_simps no_factor_in_query no_step_in_query\<close>)
qed

theorem early_exit_status_entries_witness:
  "use_lapack release_build \<and> batchCount [3, 2, 2] \<le> length [9, 9, 9 :: int]
   \<and> (1::nat) < batchCount [3, 2, 2]
   \<and> stopped_at (\<lambda>i. if i = 1 then 7 else 0) [9, 9, 9] 1
        (apply_lapack_eigh release_build
           (sample_lapack 0 (Real_val 4) (\<lambda>i. if i = 1 then 7 else 0)) [3, 2, 2] False () [9, 9, 9])
   \<and> infos (final (apply_triangular_solve release_build
           (sample_lapack 0 (Real_val 4) (\<lambda>i. if i = 1 then 7 else 0)) [3, 2, 2] () [9, 9, 9]))
      = [0, 7, 9]
   \<and> [9, 9, 9 :: int] \<noteq> []
   \<and> completed 3 [9, 9, 9]
        (apply_lapack_eigh release_build (sample_lapack 5 (Real_val 4) (\<lambda>i. 0)) [3, 2, 2] True () [9, 9, 9])"
proof -
  let ?L = "sample_lapack 0 (Real_val 4) (\<lambda>i. if i = 1 then 7 else 0) :: unit lapack"
  let ?K = "sample_lapack 5 (Real_val 4) (\<lambda>i. 0) :: unit lapack"
  have b: "batchCount [3, 2, 2] \<le> length [9, 9, 9 :: int]" by (simp add: batchCount_3)
  from early_exit_status_entries[OF sample_simps(1) b, where f = 1 and L = ?K and cplx = True
      and ?m0.0 = "()"]
  have ok: "completed 3 [9, 9, 9] (apply_lapack_eigh release_build ?K [3, 2, 2] True () [9, 9, 9])"
    by (simp add: batchCount_3 sample_simps)
  from early_exit_status_entries[OF sample_simps(1) b, where f = 1 and L = ?L and cplx = False
      and ?m0.0 = "()"]
  have "stopped_at (\<lambda>i. if i = 1 then 7 else 0) [9, 9, 9] 1
        (apply_lapack_eigh release_build ?L [3, 2, 2] False () [9, 9, 9])"
    by (simp add: batchCount_3 sample_simps)
  moreover have "infos (final (apply_triangular_solve release_build ?L [3, 2, 2] () [9, 9, 9]))
      = [0, 7, 9]"
    by (simp add: apply_triangular_solve_def sample_simps batchCount_3 early_exit_loop.simps
        lapack_call_def init_def)
  ultimately show ?thesis using b ok by (simp add: sample_simps batchCount_3)
qed

text \<open>
  C5, as stated, fails: in \<^verbatim>\<open>apply_linalg_eig\<close> slot 0 is written twice, first by the
  size query; and in \<^verbatim>\<open>apply_triangular_solve\<close>, after matrix 1 of 3 has failed, slot 2
  is never written.
\<close>

theorem status_slot_written_twice:
  "slot_writers 0 (trace (final (apply_linalg_eig release_build
       (sample_lapack 0 (Real_val 1) (\<lambda>i. 0)) [1, 2, 2] () [5])))
     = [Query (Info_slot 0), Factor 0 [1] (Info_slot 0)]
   \<and> slot_writers 2 (trace (final (apply_triangular_solve release_build
       (sample_lapack 0 (Real_val 1) (\<lambda>i. if i = 1 then 7 else 0)) [3, 2, 2] () [5, 5, 5])))
     = []"
  by (simp add: apply_linalg_eig_def apply_triangular_solve_def sample_simps batchCount_3
      early_exit_loop.simps lapack_call_def init_def to_int_def slot_writers_def)

text \<open>
  C5, amended. The writers of slot \<open>k\<close> of the status vector, in every kernel that has
  one. The per-matrix call for matrix \<open>k\<close> writes slot \<open>k\<close> and no other call of the loop
  does: once for every \<open>k\<close> below the batch size in \<^verbatim>\<open>apply_cholesky_inverse\<close> and
  \<^verbatim>\<open>apply_linalg_eig\<close>, once for every matrix up to and including the first failing one
  in \<^verbatim>\<open>apply_lapack_eigh\<close> and \<^verbatim>\<open>apply_triangular_solve\<close>, and never for the matrices
  after it. In \<^verbatim>\<open>apply_linalg_eig\<close> and \<^verbatim>\<open>apply_lapack_eigh\<close> the size query writes slot 0
  once, before the loop. Nothing else writes the vector. (The vector has a slot for
  every matrix, and slot 0 for the query.)
\<close>

theorem status_slot_writers:
  assumes "use_lapack cfg" "batchCount shp \<le> length xs"
  shows "slot_writers k (trace (final (apply_cholesky_inverse cfg Lc chunks shp upper dat xs)))
           = (if k < batchCount shp then [Factor k [] (Info_slot k)] else [])
    \<and> (xs \<noteq> [] \<longrightarrow>
          slot_writers k (trace (final (apply_linalg_eig cfg L shp m0 xs)))
           = (if k = 0 then [Query (Info_slot 0)] else [])
             @ (if k < batchCount shp then [Factor k [eig_lwork L] (Info_slot k)] else [])
        \<and> slot_writers k (trace (final (apply_lapack_eigh cfg L shp cplx m0 xs)))
           = (if k = 0 then [Query (Info_slot 0)] else [])
             @ (if k < n_processed (status L) (batchCount shp)
                then [Factor k (eigh_sizes L cplx) (Info_slot k)] else []))
    \<and> slot_writers k (trace (final (apply_triangular_solve cfg L shp m0 xs)))
           = (if k < n_processed (status L) (batchCount shp) then [Factor k [] (Info_slot k)] else [])"
proof (intro conjI impI)
  show "slot_writers k (trace (final (apply_cholesky_inverse cfg Lc chunks shp upper dat xs)))
           = (if k < batchCount shp then [Factor k [] (Info_slot k)] else [])"
    by (simp add: cholesky_run[OF assms(1)] cholesky_fold_trace init_simps slot_writers_chol)
  show "slot_writers k (trace (final (apply_linalg_eig cfg L shp m0 xs)))
           = (if k = 0 then [Query (Info_slot 0)] else [])
             @ (if k < batchCount shp then [Factor k [eig_lwork L] (Info_slot k)] else [])"
    by (simp add: eig_run[OF assms(1)] slot_steps_trace query_state slot_writers_Cons slot_writers_map)
  show "slot_writers k (trace (final (apply_lapack_eigh cfg L shp cplx m0 xs)))
           = (if k = 0 then [Query (Info_slot 0)] else [])
             @ (if k < n_processed (status L) (batchCount shp)
                then [Factor k (eigh_sizes L cplx) (Info_slot k)] else [])"
    by (simp add: eigh_run[OF assms] slot_steps_trace query_state slot_writers_Cons slot_writers_map)
  show "slot_writers k (trace (final (apply_triangular_solve cfg L shp m0 xs)))
           = (if k < n_processed (status L) (batchCount shp) then [Factor k [] (Info_slot k)] else [])"
    by (simp add: trsm_run[OF assms] slot_steps_trace init_simps slot_writers_map)
qed

theorem status_slot_writers_witness:
  "use_lapack release_build \<and> batchCount [2, 1, 1] \<le> length [5, 5 :: int]
   \<and> [5, 5 :: int] \<noteq> []
   \<and> slot_writers 1 (trace (final (apply_cholesky_inverse release_build
        (sample_lapack 0 (Real_val 1) (\<lambda>i. 0)) (\<lambda>i. []) [2, 1, 1] True [Real_val 2, Real_val 3] [5, 5])))
       = [Factor 1 [] (Info_slot 1)]
   \<and> slot_writers 0 (trace (final (apply_lapack_eigh release_build
        (sample_lapack 0 (Real_val 1) (\<lambda>i. 0)) [2, 1, 1] False () [5, 5])))
       = [Query (Info_slot 0), Factor 0 [1, - 1, 1] (Info_slot 0)]"
proof -
  have b: "batchCount [2, 1, 1] \<le> length [5, 5 :: int]" by (simp add: batchCount_3)
  have p: "n_processed (\<lambda>i. 0) 2 = 2" by (rule n_processed_ok) simp
  from status_slot_writers[OF sample_simps(1) b, where k = 1 and chunks = "\<lambda>i. []"
      and upper = True and dat = "[Real_val 2, Real_val 3]" and ?m0.0 = "()" and cplx = False
      and Lc = "sample_lapack 0 (Real_val 1) (\<lambda>i. 0)"
      and L = "sample_lapack 0 (Real_val 1) (\<lambda>i. 0) :: unit lapack"]
  have c: "slot_writers 1 (trace (final (apply_cholesky_inverse release_build
        (sample_lapack 0 (Real_val 1) (\<lambda>i. 0)) (\<lambda>i. []) [2, 1, 1] True [Real_val 2, Real_val 3] [5, 5])))
       = [Factor 1 [] (Info_slot 1)]"
    by (simp add: batchCount_3)
  from status_slot_writers[OF sample_simps(1) b, where k = 0 and chunks = "\<lambda>i. []"
      and upper = True and dat = "[Real_val 2, Real_val 3]" and ?m0.0 = "()" and cplx = False
      and Lc = "sample_lapack 0 (Real_val 1) (\<lambda>i. 0)"
      and L = "sample_lapack 0 (Real_val 1) (\<lambda>i. 0) :: unit lapack"]
  have e: "slot_writers 0 (trace (final (apply_lapack_eigh release_build
        (sample_lapack 0 (Real_val 1) (\<lambda>i. 0)) [2, 1, 1] False () [5, 5])))
       = [Query (Info_slot 0), Factor 0 [1, - 1, 1] (Info_slot 0)]"
    by (simp add: batchCount_3 sample_simps p eigh_sizes_def to_int_def)
  from b c e show ?thesis by (simp add: sample_simps)
qed

subsection \<open>A failing size query\<close>

text \<open>
  C7, as stated, fails: in \<^verbatim>\<open>apply_linalg_eig\<close>, even in a debug build, a size query that
  reports the status 3 aborts nothing; matrix 0 is processed, the kernel returns, and
  the query's status, written to slot 0, is overwritten by the status of matrix 0.
\<close>

theorem query_failure_not_fatal:
  "apply_linalg_eig debug_build (sample_lapack 3 (Real_val 1) (\<lambda>i. 0)) [1, 2, 2] () [0]
     = Returned \<lparr>mem = (), infos = [0], trace = [Query (Info_slot 0), Factor 0 [1] (Info_slot 0)]\<rparr>"
  by (simp add: apply_linalg_eig_def sample_simps batchCount_3 lapack_call_def init_def to_int_def)

text \<open>
  C7, amended. When the size query reports a nonzero status: \<^verbatim>\<open>apply_geqrf\<close> and
  \<^verbatim>\<open>apply_orgqr\<close> (on a non-empty tensor that passes its two argument assertions) built
  with debug assertions raise an internal assertion failure before any matrix is
  processed; built without them they ignore the status, do not raise, and process the
  whole batch; \<^verbatim>\<open>apply_linalg_eig\<close> and \<^verbatim>\<open>apply_lapack_eigh\<close> (with a status vector that
  has a slot for every matrix and for the query) never check the status, do not raise,
  and process the batch (all of it, or up to the first failing matrix); their first call
  is the query, with slot 0 of the status vector as its status pointer.
\<close>

theorem query_failure:
  assumes "use_lapack cfg" "query_info L \<noteq> 0"
  shows "(debug_asserts cfg \<longrightarrow>
            apply_geqrf cfg L shp m n m0
              = Raised Internal_assert
                  \<lparr>mem = effect L (Query Info_local) m0, infos = [], trace = [Query Info_local]\<rparr>)
    \<and> (debug_asserts cfg \<and> numel shp \<noteq> 0 \<and> n_columns \<le> size_neg shp 2 \<and> size_neg tau 1 \<le> n_columns \<longrightarrow>
            apply_orgqr cfg L shp tau n_columns m0
              = Raised Internal_assert
                  \<lparr>mem = effect L (Query Info_local) m0, infos = [], trace = [Query Info_local]\<rparr>)
    \<and> (\<not> debug_asserts cfg \<longrightarrow>
            raised (apply_geqrf cfg L shp m n m0) = None
          \<and> factor_indices (trace (final (apply_geqrf cfg L shp m n m0))) = [0..<batchCount shp])
    \<and> (\<not> debug_asserts cfg \<and> numel shp \<noteq> 0 \<and> n_columns \<le> size_neg shp 2 \<and> size_neg tau 1 \<le> n_columns \<longrightarrow>
            raised (apply_orgqr cfg L shp tau n_columns m0) = None
          \<and> factor_indices (trace (final (apply_orgqr cfg L shp tau n_columns m0))) = [0..<batchCount shp])
    \<and> (xs \<noteq> [] \<and> batchCount shp \<le> length xs \<longrightarrow>
            raised (apply_linalg_eig cfg L shp m0 xs) = None
          \<and> factor_indices (trace (final (apply_linalg_eig cfg L shp m0 xs))) = [0..<batchCount shp]
          \<and> raised (apply_lapack_eigh cfg L shp cplx m0 xs) = None
          \<and> factor_indices (trace (final (apply_lapack_eigh cfg L shp cplx m0 xs)))
              = [0..<n_processed (status L) (batchCount shp)]
          \<and> take 1 (trace (final (apply_linalg_eig cfg L shp m0 xs))) = [Query (Info_slot 0)]
          \<and> take 1 (trace (final (apply_lapack_eigh cfg L shp cplx m0 xs))) = [Query (Info_slot 0)])"
proof (intro conjI impI)
  assume "debug_asserts cfg"
  then show "apply_geqrf cfg L shp m n m0
      = Raised Internal_assert
          \<lparr>mem = effect L (Query Info_local) m0, infos = [], trace = [Query Info_local]\<rparr>"
    using assms by (simp add: apply_geqrf_def Let_def lapack_call_def init_def)
next
  assume "debug_asserts cfg \<and> numel shp \<noteq> 0 \<and> n_columns \<le> size_neg shp 2 \<and> size_neg tau 1 \<le> n_columns"
  then show "apply_orgqr cfg L shp tau n_columns m0
      = Raised Internal_assert
          \<lparr>mem = effect L (Query Info_local) m0, infos = [], trace = [Query Info_local]\<rparr>"
    using assms by (simp add: apply_orgqr_def Let_def lapack_call_def init_def)
next
  assume r: "\<not> debug_asserts cfg"
  show "raised (apply_geqrf cfg L shp m n m0) = None"
    by (simp add: geqrf_release_run[OF assms(1) r])
  show "factor_indices (trace (final (apply_geqrf cfg L shp m n m0))) = [0..<batchCount shp]"
    by (simp add: geqrf_release_run[OF assms(1) r] local_steps_trace query_state
        factor_indices_Cons factor_indices_map)
next
  assume r: "\<not> debug_asserts cfg \<and> numel shp \<noteq> 0 \<and> n_columns \<le> size_neg shp 2 \<and> size_neg tau 1 \<le> n_columns"
  then have run: "apply_orgqr cfg L shp tau n_columns m0
     = Returned (local_steps L (max 1 (to_int (real_impl (query_work L))))
         0 (batchCount shp) (lapack_call L (Query Info_local) (query_info L) (init m0 [])))"
    by (intro orgqr_release_run[OF assms(1)]) simp_all
  show "raised (apply_orgqr cfg L shp tau n_columns m0) = None"
    by (simp add: run)
  show "factor_indices (trace (final (apply_orgqr cfg L shp tau n_columns m0))) = [0..<batchCount shp]"
    by (simp add: run local_steps_trace query_state
        factor_indices_Cons factor_indices_map)
next
  assume "xs \<noteq> [] \<and> batchCount shp \<le> length xs"
  show "raised (apply_linalg_eig cfg L shp m0 xs) = None"
    by (simp add: eig_run[OF assms(1)])
  show "factor_indices (trace (final (apply_linalg_eig cfg L shp m0 xs))) = [0..<batchCount shp]"
    by (simp add: eig_run[OF assms(1)] slot_steps_trace query_state
        factor_indices_Cons factor_indices_map)
next
  assume "xs \<noteq> [] \<and> batchCount shp \<le> length xs"
  then have b: "batchCount shp \<le> length xs" by simp
  show "raised (apply_lapack_eigh cfg L shp cplx m0 xs) = None"
    by (simp add: eigh_run[OF assms(1) b])
  show "factor_indices (trace (final (apply_lapack_eigh cfg L shp cplx m0 xs)))
      = [0..<n_processed (status L) (batchCount shp)]"
    by (simp add: eigh_run[OF assms(1) b] slot_steps_trace query_state
        factor_indices_Cons factor_indices_map)
  show "take 1 (trace (final (apply_linalg_eig cfg L shp m0 xs))) = [Query (Info_slot 0)]"
    by (simp add: eig_run[OF assms(1)] slot_steps_trace query_state)
  show "take 1 (trace (final (apply_lapack_eigh cfg L shp cplx m0 xs))) = [Query (Info_slot 0)]"
    by (simp add: eigh_run[OF assms(1) b] slot_steps_trace query_state)
qed

theorem query_failure_witness:
  "use_lapack debug_build \<and> query_info (sample_lapack 3 (Real_val 1) (\<lambda>i. 0) :: unit lapack) \<noteq> 0
   \<and> debug_asserts debug_build \<and> numel [2, 3, 2] \<noteq> 0 \<and> 2 \<le> size_neg [2, 3, 2] 2
   \<and> size_neg [2, 2] 1 \<le> (2::nat)
   \<and> apply_geqrf debug_build (sample_lapack 3 (Real_val 1) (\<lambda>i. 0)) [2, 3, 2] 3 2 ()
       = Raised Internal_assert \<lparr>mem = (), infos = [], trace = [Query Info_local]\<rparr>
   \<and> apply_orgqr debug_build (sample_lapack 3 (Real_val 1) (\<lambda>i. 0)) [2, 3, 2] [2, 2] 2 ()
       = Raised Internal_assert \<lparr>mem = (), infos = [], trace = [Query Info_local]\<rparr>
   \<and> [0, 0 :: int] \<noteq> [] \<and> batchCount [2, 3, 2] \<le> length [0, 0 :: int]
   \<and> raised (apply_linalg_eig debug_build (sample_lapack 3 (Real_val 1) (\<lambda>i. 0)) [2, 3, 2] () [0, 0])
       = None
   \<and> factor_indices (trace (final (apply_linalg_eig debug_build
         (sample_lapack 3 (Real_val 1) (\<lambda>i. 0)) [2, 3, 2] () [0, 0]))) = [0, 1]
   \<and> \<not> debug_asserts release_build
   \<and> raised (apply_geqrf release_build (sample_lapack 3 (Real_val 1) (\<lambda>i. 0)) [2, 3, 2] 3 2 ())
       = None
   \<and> factor_indices (trace (final (apply_geqrf release_build
         (sample_lapack 3 (Real_val 1) (\<lambda>i. 0)) [2, 3, 2] 3 2 ()))) = [0, 1]"
  using query_failure[where cfg = debug_build and shp = "[2, 3, 2]" and m = 3 and n = 2
      and ?m0.0 = "()" and n_columns = 2 and tau = "[2, 2]" and xs = "[0, 0]" and cplx = False
      and L = "sample_lapack 3 (Real_val 1) (\<lambda>i. 0) :: unit lapack"]
    query_failure[where cfg = release_build and shp = "[2, 3, 2]" and m = 3 and n = 2
      and ?m0.0 = "()" and n_columns = 2 and tau = "[2, 2]" and xs = "[0, 0]" and cplx = False
      and L = "sample_lapack 3 (Real_val 1) (\<lambda>i. 0) :: unit lapack"]
  by (simp add: sample_simps batchCount_3 size_neg_def upt_rec)

subsection \<open>Empty input to \<^verbatim>\<open>apply_orgqr\<close>\<close>

text \<open>
  C8. \<^verbatim>\<open>apply_orgqr\<close> on a tensor with zero elements (a single 0-by-0 matrix, or an empty
  batch) returns at once: no size query, no per-matrix call, no error, the buffers as they
  were. (In a build with LAPACK; without it every call of the kernel raises.)
\<close>

theorem orgqr_empty_returns:
  assumes "use_lapack cfg" "numel self = 0"
  shows "apply_orgqr cfg L self tau n_columns m0 = Returned \<lparr>mem = m0, infos = [], trace = []\<rparr>"
  using assms by (simp add: apply_orgqr_def init_def)

theorem orgqr_empty_returns_witness:
  "use_lapack debug_build \<and> numel [0, 0] = 0
   \<and> apply_orgqr debug_build (sample_lapack 1 (Real_val 0) (\<lambda>i. 1)) [0, 0] [0] 0 ''buffers''
      = Returned \<lparr>mem = ''buffers'', infos = [], trace = []\<rparr>"
  using orgqr_empty_returns[where cfg = debug_build and self = "[0, 0]" and tau = "[0]"
      and n_columns = 0 and ?m0.0 = "''buffers''" and L = "sample_lapack 1 (Real_val 0) (\<lambda>i. 1)"]
  by (simp add: sample_simps numel_def)

subsection \<open>Cholesky inverse processes every matrix\<close>

text \<open>
  C10. \<^verbatim>\<open>apply_cholesky_inverse\<close> returns, and its log is, for every matrix
  \<open>0..<batch_size\<close> in order, the call of the routine followed by the symmetrization
  pass on that matrix, whatever the statuses: there is no early exit. Slot \<open>i\<close> of a
  status vector with a slot for every matrix ends with the status of matrix \<open>i\<close>. On a
  batch of square matrices, with a LAPACK routine that stays inside the matrix it is
  given, every matrix of the batch is mirrored at the end, the ones with a nonzero status
  too.
\<close>

theorem cholesky_inverse_all_matrices:
  assumes "use_lapack cfg"
  shows "raised (apply_cholesky_inverse cfg L chunks shp upper dat xs) = None
    \<and> trace (final (apply_cholesky_inverse cfg L chunks shp upper dat xs))
        = concat (map (\<lambda>i. [Factor i [] (Info_slot i), Reflect i]) [0..<batchCount shp])
    \<and> (batchCount shp \<le> length xs \<longrightarrow>
         (\<forall>i<batchCount shp.
            infos (final (apply_cholesky_inverse cfg L chunks shp upper dat xs)) ! i = status L i))
    \<and> (size_neg shp 1 = size_neg shp 2 \<and> frame L (matrixStride shp)
         \<and> batchCount shp * matrixStride shp \<le> length dat
         \<and> (\<forall>i. 256 \<le> size_neg shp 2 \<longrightarrow> covers 0 (size_neg shp 2) (chunks i)) \<longrightarrow>
         (\<forall>i<batchCount shp.
            mirrored upper (mem (final (apply_cholesky_inverse cfg L chunks shp upper dat xs)))
              (i * matrixStride shp) (size_neg shp 2) (max 1 (size_neg shp 2))))"
proof (intro conjI impI)
  let ?n = "size_neg shp 2"
  let ?lda = "max 1 ?n"
  let ?b = "batchCount shp"
  note run = cholesky_run[OF assms, of L chunks shp upper dat xs]
  show "raised (apply_cholesky_inverse cfg L chunks shp upper dat xs) = None"
    by (simp add: run)
  show "trace (final (apply_cholesky_inverse cfg L chunks shp upper dat xs))
        = concat (map (\<lambda>i. [Factor i [] (Info_slot i), Reflect i]) [0..<?b])"
    by (simp add: run cholesky_fold_trace init_simps chol_events_def)
  {
    assume "?b \<le> length xs"
    then show "\<forall>i<?b. infos (final (apply_cholesky_inverse cfg L chunks shp upper dat xs)) ! i
        = status L i"
      by (simp add: run cholesky_fold_nth init_simps)
  }
  {
    assume h: "size_neg shp 1 = ?n \<and> frame L (matrixStride shp)
         \<and> ?b * matrixStride shp \<le> length dat
         \<and> (\<forall>i. 256 \<le> ?n \<longrightarrow> covers 0 ?n (chunks i))"
    then have S: "matrixStride shp = ?n * ?lda" by (intro square_stride) simp
    let ?fin = "fold (cholesky_step L chunks (?n * ?lda) ?n ?lda upper) [0..<?b] (init dat xs)"
    have fin: "final (apply_cholesky_inverse cfg L chunks shp upper dat xs) = ?fin"
      using run by (simp only: S final.simps)
    have fr: "frame L (?n * ?lda)" using h by (simp only: S)
    have len: "?b * (?n * ?lda) \<le> length (mem (init dat xs))"
      using h by (simp only: S init_simps)
    have cov: "\<forall>i. 256 \<le> ?n \<longrightarrow> covers 0 ?n (chunks i)" using h by simp
    have lda: "?n \<le> ?lda" by simp
    from cholesky_fold_mem[OF fr lda cov len, of ?b upper]
    have "\<forall>i<?b. mirrored upper (mem ?fin) (i * (?n * ?lda)) ?n ?lda" by simp
    then show "\<forall>i<?b. mirrored upper
        (mem (final (apply_cholesky_inverse cfg L chunks shp upper dat xs)))
        (i * matrixStride shp) ?n ?lda"
      unfolding fin S .
  }
qed

theorem cholesky_inverse_all_matrices_witness:
  "use_lapack release_build \<and> size_neg [2, 2, 2] 1 = size_neg [2, 2, 2] 2
   \<and> frame (sample_lapack 0 (Real_val 1) (\<lambda>i. 3)) (matrixStride [2, 2, 2])
   \<and> batchCount [2, 2, 2] * matrixStride [2, 2, 2]
        \<le> length [Real_val 1, Real_val 2, Complex_val (Complex 3 3), Real_val 4,
                  Real_val 5, Real_val 6, Complex_val (Complex 7 7), Real_val 8]
   \<and> batchCount [2, 2, 2] \<le> length [0, 0 :: int]
   \<and> \<not> 256 \<le> size_neg [2, 2, 2] 2
   \<and> trace (final (apply_cholesky_inverse release_build (sample_lapack 0 (Real_val 1) (\<lambda>i. 3))
        (\<lambda>i. []) [2, 2, 2] True
        [Real_val 1, Real_val 2, Complex_val (Complex 3 3), Real_val 4,
         Real_val 5, Real_val 6, Complex_val (Complex 7 7), Real_val 8] [0, 0]))
      = [Factor 0 [] (Info_slot 0), Reflect 0, Factor 1 [] (Info_slot 1), Reflect 1]
   \<and> mirrored True (mem (final (apply_cholesky_inverse release_build
        (sample_lapack 0 (Real_val 1) (\<lambda>i. 3)) (\<lambda>i. []) [2, 2, 2] True
        [Real_val 1, Real_val 2, Complex_val (Complex 3 3), Real_val 4,
         Real_val 5, Real_val 6, Complex_val (Complex 7 7), Real_val 8] [0, 0]))) 4 2 2
   \<and> final (apply_cholesky_inverse release_build (sample_lapack 0 (Real_val 1) (\<lambda>i. 3))
        (\<lambda>i. []) [2, 2, 2] True
        [Real_val 1, Real_val 2, Complex_val (Complex 3 3), Real_val 4,
         Real_val 5, Real_val 6, Complex_val (Complex 7 7), Real_val 8] [0, 0])
      = \<lparr>mem = [Real_val 1, Complex_val (Complex 3 (- 3)), Complex_val (Complex 3 3), Real_val 4,
                Real_val 5, Complex_val (Complex 7 (- 7)), Complex_val (Complex 7 7), Real_val 8],
         infos = [3, 3],
         trace = [Factor 0 [] (Info_slot 0), Reflect 0, Factor 1 [] (Info_slot 1), Reflect 1]\<rparr>"
proof -
  let ?L = "sample_lapack 0 (Real_val 1) (\<lambda>i. 3) :: scalar list lapack"
  let ?dat = "[Real_val 1, Real_val 2, Complex_val (Complex 3 3), Real_val 4,
         Real_val 5, Real_val 6, Complex_val (Complex 7 7), Real_val 8]"
  have h2: "size_neg [2, 2, 2] 1 = size_neg [2, 2, 2] 2" by (simp add: batchCount_3 size_neg_Suc0)
  have h4: "batchCount [2, 2, 2] * matrixStride [2, 2, 2] \<le> length ?dat" by (simp add: batchCount_3 size_neg_Suc0)
  have h5: "batchCount [2, 2, 2] \<le> length [0, 0 :: int]" by (simp add: batchCount_3 size_neg_Suc0)
  have h6: "\<forall>i. 256 \<le> size_neg [2, 2, 2] 2 \<longrightarrow> covers 0 (size_neg [2, 2, 2] 2) ((\<lambda>i. []) i)"
    by (simp add: batchCount_3 size_neg_Suc0)
  note all = cholesky_inverse_all_matrices[OF sample_simps(1), where upper = True and L = ?L
      and shp = "[2, 2, 2]" and chunks = "\<lambda>i. []" and dat = ?dat and xs = "[0, 0]"]
  have "\<forall>i<batchCount [2, 2, 2].
      mirrored True (mem (final (apply_cholesky_inverse release_build ?L (\<lambda>i. []) [2, 2, 2] True ?dat [0, 0])))
        (i * matrixStride [2, 2, 2]) (size_neg [2, 2, 2] 2) (max 1 (size_neg [2, 2, 2] 2))"
    using all h2 h4 h6 frame_sample[of 0 "Real_val 1" "\<lambda>i. 3" "matrixStride [2, 2, 2]"] by blast
  then have "1 < batchCount [2, 2, 2] \<longrightarrow>
      mirrored True (mem (final (apply_cholesky_inverse release_build ?L (\<lambda>i. []) [2, 2, 2] True ?dat [0, 0])))
        (1 * matrixStride [2, 2, 2]) (size_neg [2, 2, 2] 2) (max 1 (size_neg [2, 2, 2] 2))"
    by blast
  then have mir: "mirrored True
      (mem (final (apply_cholesky_inverse release_build ?L (\<lambda>i. []) [2, 2, 2] True ?dat [0, 0]))) 4 2 2"
    by (simp add: batchCount_3 max_def)
  from all
  have tr: "trace (final (apply_cholesky_inverse release_build ?L (\<lambda>i. []) [2, 2, 2] True ?dat [0, 0]))
      = [Factor 0 [] (Info_slot 0), Reflect 0, Factor 1 [] (Info_slot 1), Reflect 1]"
    by (simp add: batchCount_3 upt_rec)
  have ev: "final (apply_cholesky_inverse release_build ?L (\<lambda>i. []) [2, 2, 2] True ?dat [0, 0])
      = \<lparr>mem = [Real_val 1, Complex_val (Complex 3 (- 3)), Complex_val (Complex 3 3), Real_val 4,
                Real_val 5, Complex_val (Complex 7 (- 7)), Complex_val (Complex 7 7), Real_val 8],
         infos = [3, 3],
         trace = [Factor 0 [] (Info_slot 0), Reflect 0, Factor 1 [] (Info_slot 1), Reflect 1]\<rparr>"
    by (simp add: apply_cholesky_inverse_def cholesky_step_def reflect_call_def lapack_call_def
        init_def sample_simps batchCount_3 apply_reflect_conj_tri_single_def loop_def loop_upper_def
        reflect_elem_def upt_rec complex_eq_iff)
  from h2 h4 h5 tr mir ev frame_sample[of 0 "Real_val 1" "\<lambda>i. 3" "matrixStride [2, 2, 2]"]
  show ?thesis by (simp add: sample_simps batchCount_3 size_neg_Suc0)
qed

end
